theory Spec2Isabelle
  imports Main
begin

section \<open>The pyparsing elements used by the SSH syslog plugin\<close>

text \<open>
  The plugin \<^verbatim>\<open>plaso/parsers/syslog_plugins/ssh.py\<close> builds its three message grammars
  from elements of the pyparsing library (3.x line).  An element is applied to the whole
  input string at a location and either raises \<^verbatim>\<open>ParseException\<close> (here: \<open>None\<close>) or
  returns the new location and its results: the list of matched tokens and the
  dictionary of named results.  The leading flag is the element's \<^verbatim>\<open>skipWhitespace\<close>
  attribute, which \<^verbatim>\<open>leaveWhitespace()\<close> (called by \<^verbatim>\<open>Combine\<close> on what it contains)
  switches off.  Characters are 8-bit, so bodies are modelled up to Latin-1.
\<close>

type_synonym ParseResults = "string list \<times> (string \<rightharpoonup> string)"

type_synonym ParserElement = "bool \<Rightarrow> string \<Rightarrow> nat \<Rightarrow> (nat \<times> ParseResults) option"

definition nums :: string where
  "nums = ''0123456789''"

definition alphas :: string where
  "alphas = ''ABCDEFGHIJKLMNOPQRSTUVWXYZabcdefghijklmnopqrstuvwxyz''"

definition alphanums :: string where
  "alphanums = alphas @ nums"

definition hexnums :: string where
  "hexnums = nums @ ''ABCDEFabcdef''"

definition DEFAULT_WHITE_CHARS :: string where
  "DEFAULT_WHITE_CHARS = [CHR '' '', CHR 0x0A, CHR 0x09, CHR 0x0D]"

definition DEFAULT_KEYWORD_CHARS :: string where
  "DEFAULT_KEYWORD_CHARS = alphanums @ ''_$''"

text \<open>
  \<^verbatim>\<open>preParse\<close>: \<^verbatim>\<open>while loc < instrlen and instring[loc] in wt: loc += 1\<close>, only when the
  element skips whitespace.
\<close>

definition preParse :: "bool \<Rightarrow> string \<Rightarrow> string \<Rightarrow> nat \<Rightarrow> nat" where
  "preParse skipWhitespace whiteChars instring loc =
     (if skipWhitespace
      then loc + length (takeWhile (\<lambda>c. c \<in> set whiteChars) (drop loc instring))
      else loc)"

definition startswith :: "string \<Rightarrow> string \<Rightarrow> nat \<Rightarrow> bool" where
  "startswith instring match loc \<longleftrightarrow> take (length match) (drop loc instring) = match"

definition Literal :: "string \<Rightarrow> ParserElement" where
  "Literal match skipWhitespace instring loc0 =
     (let loc = preParse skipWhitespace DEFAULT_WHITE_CHARS instring loc0 in
      if startswith instring match loc
      then Some (loc + length match, ([match], Map.empty))
      else None)"

text \<open>
  \<^verbatim>\<open>Keyword\<close> is a literal that must not be preceded or followed by an identifier
  character (\<^verbatim>\<open>alphanums + "_$"\<close>).
\<close>

definition Keyword :: "string \<Rightarrow> ParserElement" where
  "Keyword match skipWhitespace instring loc0 =
     (let loc = preParse skipWhitespace DEFAULT_WHITE_CHARS instring loc0 in
      if startswith instring match loc
         \<and> (length instring - length match \<le> loc
              \<or> instring ! (loc + length match) \<notin> set DEFAULT_KEYWORD_CHARS)
         \<and> (loc = 0 \<or> instring ! (loc - 1) \<notin> set DEFAULT_KEYWORD_CHARS)
      then Some (loc + length match, ([match], Map.empty))
      else None)"

text \<open>
  \<^verbatim>\<open>Word(chars, max=n)\<close>, with \<open>max = 0\<close> for "not specified".  pyparsing 3 compiles such
  a word to the regular expression \<^verbatim>\<open>[chars]{1,n}\<close> (\<^verbatim>\<open>[chars]+\<close> without a maximum): it
  takes as many characters of \<open>chars\<close> as there are, at least one and at most \<open>max\<close>, and
  does not look at what follows them.
\<close>

definition Word :: "string \<Rightarrow> nat \<Rightarrow> ParserElement" where
  "Word chars maxLen skipWhitespace instring loc0 =
     (let start = preParse skipWhitespace DEFAULT_WHITE_CHARS instring loc0;
          run = length (takeWhile (\<lambda>c. c \<in> set chars) (drop start instring));
          n = (if 0 < maxLen then min maxLen run else run);
          loc = start + n
      in if n < 1 then None
         else Some (loc, ([take n (drop start instring)], Map.empty)))"

subsection \<open>Regular expressions\<close>

text \<open>
  \<^verbatim>\<open>pyparsing_common.ipv4_address\<close> and the parts of an IPv6 address are \<^verbatim>\<open>Regex\<close>
  elements.  A pattern maps the remaining input to the remainders of all its matches, in
  the order in which a backtracking matcher tries them (alternatives left to right,
  repetitions greedy); \<^verbatim>\<open>re.match\<close> takes the first.
\<close>

type_synonym re = "string \<Rightarrow> string list"

fun re_set :: "string \<Rightarrow> re" where
  "re_set cs [] = []"
| "re_set cs (c # s) = (if c \<in> set cs then [s] else [])"

definition re_seq :: "re \<Rightarrow> re \<Rightarrow> re" where
  "re_seq a b s = concat (map b (a s))"

definition re_alt :: "re \<Rightarrow> re \<Rightarrow> re" where
  "re_alt a b s = a s @ b s"

fun re_range :: "nat \<Rightarrow> nat \<Rightarrow> re \<Rightarrow> re" where
  "re_range (Suc m) (Suc n) a s = concat (map (re_range m n a) (a s))"
| "re_range 0 (Suc n) a s = concat (map (re_range 0 n a) (a s)) @ [s]"
| "re_range 0 0 a s = [s]"
| "re_range (Suc m) 0 a s = []"

definition Regex :: "re \<Rightarrow> ParserElement" where
  "Regex pattern skipWhitespace instring loc0 =
     (let loc = preParse skipWhitespace DEFAULT_WHITE_CHARS instring loc0 in
      case pattern (drop loc instring) of
        [] \<Rightarrow> None
      | rest # _ \<Rightarrow>
          (let n = length instring - loc - length rest
           in Some (loc + n, ([take n (drop loc instring)], Map.empty))))"

subsection \<open>Compound elements\<close>

fun And :: "ParserElement list \<Rightarrow> ParserElement" where
  "And [] skipWhitespace instring loc = Some (loc, ([], Map.empty))"
| "And (e # exprs) skipWhitespace instring loc =
     (case e skipWhitespace instring loc of
        None \<Rightarrow> None
      | Some (loc1, (toks1, named1)) \<Rightarrow>
          (case And exprs skipWhitespace instring loc1 of
             None \<Rightarrow> None
           | Some (loc2, (toks2, named2)) \<Rightarrow> Some (loc2, (toks1 @ toks2, named1 ++ named2))))"

fun MatchFirst_alternatives :: "ParserElement list \<Rightarrow> ParserElement" where
  "MatchFirst_alternatives [] skipWhitespace instring loc = None"
| "MatchFirst_alternatives (e # exprs) skipWhitespace instring loc =
     (case e skipWhitespace instring loc of
        Some r \<Rightarrow> Some r
      | None \<Rightarrow> MatchFirst_alternatives exprs skipWhitespace instring loc)"

definition MatchFirst :: "ParserElement list \<Rightarrow> ParserElement" where
  "MatchFirst exprs skipWhitespace instring loc0 =
     MatchFirst_alternatives exprs skipWhitespace instring
       (preParse skipWhitespace DEFAULT_WHITE_CHARS instring loc0)"

text \<open>
  \<^verbatim>\<open>Optional\<close> skips whitespace itself; when the contained expression fails it returns
  the location after that skip and no tokens.
\<close>

definition Optional :: "ParserElement \<Rightarrow> ParserElement" where
  "Optional expr skipWhitespace instring loc0 =
     (let loc = preParse skipWhitespace DEFAULT_WHITE_CHARS instring loc0 in
      case expr skipWhitespace instring loc of
        Some r \<Rightarrow> Some r
      | None \<Rightarrow> Some (loc, ([], Map.empty)))"

text \<open>
  \<^verbatim>\<open>Combine\<close> skips leading whitespace itself, lets nothing inside it skip whitespace,
  and joins the matched tokens into one.
\<close>

definition Combine :: "ParserElement \<Rightarrow> ParserElement" where
  "Combine expr skipWhitespace instring loc0 =
     (let loc = preParse skipWhitespace DEFAULT_WHITE_CHARS instring loc0 in
      case expr False instring loc of
        None \<Rightarrow> None
      | Some (loc1, (toks, named)) \<Rightarrow> Some (loc1, ([concat toks], named)))"

text \<open>\<^verbatim>\<open>expr.setResultsName(name)\<close>: the first token is stored under \<open>name\<close>.\<close>

definition setResultsName :: "ParserElement \<Rightarrow> string \<Rightarrow> ParserElement" where
  "setResultsName expr name skipWhitespace instring loc =
     (case expr skipWhitespace instring loc of
        None \<Rightarrow> None
      | Some (loc1, (toks, named)) \<Rightarrow>
          Some (loc1, (toks, if toks = [] then named else named(name \<mapsto> hd toks))))"

text \<open>\<^verbatim>\<open>expr.addCondition(fn)\<close>: the match is refused when \<open>fn\<close> rejects its tokens.\<close>

definition addCondition :: "ParserElement \<Rightarrow> (string list \<Rightarrow> bool) \<Rightarrow> ParserElement" where
  "addCondition expr fn skipWhitespace instring loc =
     (case expr skipWhitespace instring loc of
        None \<Rightarrow> None
      | Some (loc1, (toks, named)) \<Rightarrow> if fn toks then Some (loc1, (toks, named)) else None)"

text \<open>
  \<^verbatim>\<open>StringEnd\<close> skips the default whitespace and matches at the end of the input only;
  \<^verbatim>\<open>LineEnd\<close> skips whitespace other than the line feed and matches a line feed or the
  end of the input.
\<close>

definition StringEnd :: ParserElement where
  "StringEnd skipWhitespace instring loc0 =
     (let loc = preParse skipWhitespace DEFAULT_WHITE_CHARS instring loc0 in
      if loc < length instring then None
      else if loc = length instring then Some (loc + 1, ([], Map.empty))
      else Some (loc, ([], Map.empty)))"

definition LineEnd :: ParserElement where
  "LineEnd skipWhitespace instring loc0 =
     (let loc = preParse skipWhitespace (removeAll (CHR 0x0A) DEFAULT_WHITE_CHARS) instring loc0 in
      if loc < length instring
      then (if instring ! loc = CHR 0x0A then Some (loc + 1, ([[CHR 0x0A]], Map.empty)) else None)
      else if loc = length instring then Some (loc + 1, ([], Map.empty))
      else None)"

text \<open>
  \<^verbatim>\<open>parseString\<close> expands tabs to the next multiple of eight columns
  (\<^verbatim>\<open>str.expandtabs()\<close>; the column restarts after a line feed or carriage return) and
  applies the element at location 0.
\<close>

fun expandtabs_from :: "nat \<Rightarrow> string \<Rightarrow> string" where
  "expandtabs_from j [] = []"
| "expandtabs_from j (c # s) =
     (if c = CHR 0x09
      then replicate (8 - j mod 8) (CHR '' '') @ expandtabs_from (j + (8 - j mod 8)) s
      else c # expandtabs_from (if c = CHR 0x0A \<or> c = CHR 0x0D then 0 else j + 1) s)"

definition expandtabs :: "string \<Rightarrow> string" where
  "expandtabs s = expandtabs_from 0 s"

definition parseString :: "ParserElement \<Rightarrow> string \<Rightarrow> ParseResults option" where
  "parseString expr instring = map_option snd (expr True (expandtabs instring) 0)"

definition asDict :: "ParseResults \<Rightarrow> (string \<rightharpoonup> string)" where
  "asDict tokens = snd tokens"

subsection \<open>The address elements of \<^verbatim>\<open>pyparsing_common\<close>\<close>

text \<open>
  \<^verbatim>\<open>ipv4_address\<close> is the regular expression
  \<^verbatim>\<open>(25[0-5]|2[0-4][0-9]|1?[0-9]{1,2})(\.(25[0-5]|2[0-4][0-9]|1?[0-9]{1,2})){3}\<close>.
\<close>

definition re_octet :: re where
  "re_octet =
     re_alt (re_seq (re_set ''2'') (re_seq (re_set ''5'') (re_set ''012345'')))
       (re_alt (re_seq (re_set ''2'') (re_seq (re_set ''01234'') (re_set nums)))
          (re_seq (re_range 0 1 (re_set ''1'')) (re_range 1 2 (re_set nums))))"

definition ipv4_address :: ParserElement where
  "ipv4_address = Regex (re_seq re_octet (re_range 3 3 (re_seq (re_set ''.'') re_octet)))"

text \<open>
  \<^verbatim>\<open>ipv6_address\<close> combines a full address (eight parts of one to four hexadecimal
  digits), a mixed address (\<^verbatim>\<open>::ffff:\<close> and an IPv4 address) or a short address (up to
  seven parts around one \<^verbatim>\<open>::\<close>).  \<^verbatim>\<open>expr * (0, n)\<close> is a nest of \<^verbatim>\<open>Optional\<close>s.
\<close>

definition ipv6_part :: ParserElement where
  "ipv6_part = Regex (re_range 1 4 (re_set hexnums))"

fun makeOptionalList :: "ParserElement \<Rightarrow> nat \<Rightarrow> ParserElement" where
  "makeOptionalList expr 0 = Optional expr"
| "makeOptionalList expr (Suc n) =
     (if n = 0 then Optional expr else Optional (And [expr, makeOptionalList expr n]))"

definition full_ipv6_address :: ParserElement where
  "full_ipv6_address = And [ipv6_part, And (replicate 7 (And [Literal '':'', ipv6_part]))]"

definition ipv6_part_matches :: "string \<Rightarrow> bool" where
  "ipv6_part_matches tt \<longleftrightarrow> And [ipv6_part, StringEnd] True (expandtabs tt) 0 \<noteq> None"

definition short_ipv6_address :: ParserElement where
  "short_ipv6_address =
     addCondition
       (And [Optional (And [ipv6_part, makeOptionalList (And [Literal '':'', ipv6_part]) 6]),
             Literal ''::'',
             Optional (And [ipv6_part, makeOptionalList (And [Literal '':'', ipv6_part]) 6])])
       (\<lambda>t. length (filter ipv6_part_matches t) < 8)"

definition mixed_ipv6_address :: ParserElement where
  "mixed_ipv6_address = And [Literal ''::ffff:'', ipv4_address]"

definition ipv6_address :: ParserElement where
  "ipv6_address = Combine (MatchFirst [full_ipv6_address, mixed_ipv6_address, short_ipv6_address])"

section \<open>The SSH syslog plugin\<close>

subsection \<open>Grammars\<close>

definition AUTHENTICATION_METHOD :: ParserElement where
  "AUTHENTICATION_METHOD = MatchFirst [Keyword ''password'', Keyword ''publickey'']"

definition IP_ADDRESS :: ParserElement where
  "IP_ADDRESS = MatchFirst [ipv4_address, ipv6_address]"

definition USERNAME :: ParserElement where
  "USERNAME = setResultsName (Word alphanums 0) ''username''"

definition PORT :: ParserElement where
  "PORT = setResultsName (Word nums 5) ''port''"

definition FINGER_PRINT :: ParserElement where
  "FINGER_PRINT =
     setResultsName (Combine (And [Literal ''RSA '', Word ('':'' @ hexnums) 0])) ''fingerprint''"

text \<open>
  \<^verbatim>\<open>a + b + ...\<close> is the \<^verbatim>\<open>And\<close> of the elements in order; each grammar is given as its
  list of elements, so that a prefix of a grammar can be named.
\<close>

definition LOGIN_ELEMENTS :: "ParserElement list" where
  "LOGIN_ELEMENTS =
     [Literal ''Accepted'',
      setResultsName AUTHENTICATION_METHOD ''authentication_method'',
      Literal ''for'', USERNAME,
      Literal ''from'', setResultsName IP_ADDRESS ''address'',
      Literal ''port'', PORT,
      setResultsName (Literal ''ssh2'') ''protocol'',
      Optional (And [Literal '':'', FINGER_PRINT]),
      StringEnd]"

definition LOGIN_GRAMMAR :: ParserElement where
  "LOGIN_GRAMMAR = And LOGIN_ELEMENTS"

definition FAILED_CONNECTION_ELEMENTS :: "ParserElement list" where
  "FAILED_CONNECTION_ELEMENTS =
     [Literal ''Failed'',
      setResultsName AUTHENTICATION_METHOD ''authentication_method'',
      Literal ''for'', USERNAME,
      Literal ''from'', setResultsName IP_ADDRESS ''address'',
      Literal ''port'', PORT,
      StringEnd]"

definition FAILED_CONNECTION_GRAMMAR :: ParserElement where
  "FAILED_CONNECTION_GRAMMAR = And FAILED_CONNECTION_ELEMENTS"

definition OPENED_CONNECTION_ELEMENTS :: "ParserElement list" where
  "OPENED_CONNECTION_ELEMENTS =
     [Literal ''Connection from'',
      setResultsName IP_ADDRESS ''address'',
      Literal ''port'', PORT,
      LineEnd]"

definition OPENED_CONNECTION_GRAMMAR :: ParserElement where
  "OPENED_CONNECTION_GRAMMAR = And OPENED_CONNECTION_ELEMENTS"

definition MESSAGE_GRAMMARS :: "(string \<times> ParserElement) list" where
  "MESSAGE_GRAMMARS =
     [(''login'', LOGIN_GRAMMAR),
      (''failed_connection'', FAILED_CONNECTION_GRAMMAR),
      (''opened_connection'', OPENED_CONNECTION_GRAMMAR)]"

definition SUPPORTED_KEYS :: "string set" where
  "SUPPORTED_KEYS = set (map fst MESSAGE_GRAMMARS)"

subsection \<open>Event data and \<^verbatim>\<open>_ParseMessage\<close>\<close>

text \<open>
  \<^verbatim>\<open>SSHEventData\<close> with the attributes it inherits from the syslog line event data; the
  three subclasses differ in \<^verbatim>\<open>DATA_TYPE\<close> only.  The date and time value is opaque.
  The parser mediator is the list of event data produced so far.
\<close>

record 'dt SSHEventData =
  data_type :: string
  body :: "string option"
  hostname :: "string option"
  pid :: "string option"
  reporter :: "string option"
  severity :: "string option"
  address :: "string option"
  authentication_method :: "string option"
  fingerprint :: "string option"
  last_written_time :: "'dt option"
  port :: "string option"
  protocol :: "string option"
  username :: "string option"

definition SSHEventData_init :: "string \<Rightarrow> 'dt SSHEventData" where
  "SSHEventData_init DATA_TYPE =
     \<lparr>data_type = DATA_TYPE, body = None, hostname = None, pid = None, reporter = None,
      severity = None, address = None, authentication_method = None, fingerprint = None,
      last_written_time = None, port = None, protocol = None, username = None\<rparr>"

definition SSHLoginEventData :: "'dt SSHEventData" where
  "SSHLoginEventData = SSHEventData_init ''syslog:ssh:login''"

definition SSHFailedConnectionEventData :: "'dt SSHEventData" where
  "SSHFailedConnectionEventData = SSHEventData_init ''syslog:ssh:failed_connection''"

definition SSHOpenedConnectionEventData :: "'dt SSHEventData" where
  "SSHOpenedConnectionEventData = SSHEventData_init ''syslog:ssh:opened_connection''"

datatype error = ParseError string

type_synonym 'dt ParserMediator = "'dt SSHEventData list"

definition ProduceEventData :: "'dt ParserMediator \<Rightarrow> 'dt SSHEventData \<Rightarrow> 'dt ParserMediator" where
  "ProduceEventData parser_mediator event_data = parser_mediator @ [event_data]"

definition ParseMessage ::
  "'dt ParserMediator \<Rightarrow> string \<Rightarrow> 'dt \<Rightarrow> (string \<rightharpoonup> string) \<Rightarrow> error + 'dt ParserMediator" where
  "ParseMessage parser_mediator key date_time tokens =
     (if key \<notin> SUPPORTED_KEYS
      then Inl (ParseError (''Unable to parse message, unknown structure: '' @ key))
      else
        let event_data =
              (if key = ''login'' then SSHLoginEventData
               else if key = ''failed_connection'' then SSHFailedConnectionEventData
               else SSHOpenedConnectionEventData)
        in Inr (ProduceEventData parser_mediator
             (event_data
                \<lparr>address := tokens ''address'',
                 authentication_method := tokens ''authentication_method'',
                 body := tokens ''body'',
                 fingerprint := tokens ''fingerprint'',
                 hostname := tokens ''hostname'',
                 last_written_time := Some date_time,
                 pid := tokens ''pid'',
                 protocol := tokens ''protocol'',
                 port := tokens ''port'',
                 reporter := tokens ''reporter'',
                 severity := tokens ''severity'',
                 username := tokens ''username''\<rparr>)))"

subsection \<open>Classification\<close>

text \<open>
  Modelled from the spec: the \<^verbatim>\<open>classify\<close> operation (the loop of the syslog plugin
  interface that applies the plugin's grammars to a message body is not part of the
  plugin's file).  It tries the grammars of the list in order against the body and
  returns the category and token mapping of the first one that matches, or no match.
\<close>

fun classify_with :: "(string \<times> ParserElement) list \<Rightarrow> string \<Rightarrow> (string \<times> (string \<rightharpoonup> string)) option" where
  "classify_with [] text = None"
| "classify_with ((key, grammar) # grammars) text =
     (case parseString grammar text of
        Some tokens \<Rightarrow> Some (key, asDict tokens)
      | None \<Rightarrow> classify_with grammars text)"

definition classify :: "string \<Rightarrow> (string \<times> (string \<rightharpoonup> string)) option" where
  "classify text = classify_with MESSAGE_GRAMMARS text"

subsection \<open>Named results\<close>

text \<open>An element stores results under names of the set \<open>N\<close> only.\<close>

definition names_within :: "string set \<Rightarrow> ParserElement \<Rightarrow> bool" where
  "names_within N e \<longleftrightarrow>
     (\<forall>b s l l' toks named. e b s l = Some (l', (toks, named)) \<longrightarrow> dom named \<subseteq> N)"

section \<open>Record construction\<close>

lemma SUPPORTED_KEYS_eq:
  "SUPPORTED_KEYS = {''login'', ''failed_connection'', ''opened_connection''}"
  by (simp add: SUPPORTED_KEYS_def MESSAGE_GRAMMARS_def)

lemmas event_data_defs =
  SSHLoginEventData_def SSHFailedConnectionEventData_def SSHOpenedConnectionEventData_def
  SSHEventData_init_def ProduceEventData_def

text \<open>
  Claim C2.  For every key outside \<open>{login, failed_connection, opened_connection}\<close> and
  every token mapping, \<^verbatim>\<open>_ParseMessage\<close> raises \<^verbatim>\<open>ParseError\<close> naming the key, and returns
  no mediator state: nothing was constructed or produced.
\<close>

theorem unknown_key_ParseError:
  assumes "key \<notin> {''login'', ''failed_connection'', ''opened_connection''}"
  shows "ParseMessage parser_mediator key date_time tokens
           = Inl (ParseError (''Unable to parse message, unknown structure: '' @ key))
         \<and> (\<forall>produced. ParseMessage parser_mediator key date_time tokens \<noteq> Inr produced)"
  using assms by (simp add: ParseMessage_def SUPPORTED_KEYS_eq)

theorem unknown_key_ParseError_witness:
  "''logout'' \<notin> {''login'', ''failed_connection'', ''opened_connection''}
   \<and> ParseMessage [] ''logout'' (0::nat) [''username'' \<mapsto> ''root'']
       = Inl (ParseError ''Unable to parse message, unknown structure: logout'')"
  using unknown_key_ParseError [of "''logout''" "[]" "0::nat" "[''username'' \<mapsto> ''root'']"]
  by simp

text \<open>
  Claim C9.  For each of the three recognised keys and every token mapping, the event
  data produced has \<open>address\<close>, \<open>authentication_method\<close>, \<open>body\<close>, \<open>fingerprint\<close>,
  \<open>hostname\<close>, \<open>pid\<close>, \<open>protocol\<close>, \<open>port\<close>, \<open>reporter\<close>, \<open>severity\<close> and \<open>username\<close>
  equal to the mapping's lookup under the same key (\<open>None\<close> when the key is absent), and
  \<open>last_written_time\<close> equal to the \<open>date_time\<close> argument.
\<close>

theorem ParseMessage_fields:
  assumes "key \<in> {''login'', ''failed_connection'', ''opened_connection''}"
  shows "\<exists>event_data.
     ParseMessage parser_mediator key date_time tokens = Inr (parser_mediator @ [event_data])
     \<and> address event_data = tokens ''address''
     \<and> authentication_method event_data = tokens ''authentication_method''
     \<and> body event_data = tokens ''body''
     \<and> fingerprint event_data = tokens ''fingerprint''
     \<and> hostname event_data = tokens ''hostname''
     \<and> pid event_data = tokens ''pid''
     \<and> protocol event_data = tokens ''protocol''
     \<and> port event_data = tokens ''port''
     \<and> reporter event_data = tokens ''reporter''
     \<and> severity event_data = tokens ''severity''
     \<and> username event_data = tokens ''username''
     \<and> last_written_time event_data = Some date_time"
  using assms by (auto simp add: ParseMessage_def SUPPORTED_KEYS_eq event_data_defs)

theorem ParseMessage_fields_witness:
  "''failed_connection'' \<in> {''login'', ''failed_connection'', ''opened_connection''}
   \<and> (\<exists>event_data.
     ParseMessage [] ''failed_connection'' (7::nat) [''port'' \<mapsto> ''22'', ''pid'' \<mapsto> ''411'']
       = Inr [event_data]
     \<and> port event_data = Some ''22'' \<and> pid event_data = Some ''411''
     \<and> username event_data = None \<and> last_written_time event_data = Some 7)"
  using ParseMessage_fields [of "''failed_connection''" "[]" "7::nat" "[''port'' \<mapsto> ''22'', ''pid'' \<mapsto> ''411'']"]
  by auto

section \<open>Sequences of elements and the end anchors\<close>

lemma preParse_drop:
  "drop (preParse True wt s loc) s = dropWhile (\<lambda>c. c \<in> set wt) (drop loc s)"
proof -
  have "drop (length (takeWhile (\<lambda>c. c \<in> set wt) (drop loc s))) (drop loc s)
          = dropWhile (\<lambda>c. c \<in> set wt) (drop loc s)"
    by (rule dropWhile_eq_drop [symmetric])
  then show ?thesis by (simp add: preParse_def add.commute)
qed

lemma And_append:
  "And (xs @ ys) b s loc =
     (case And xs b s loc of
        None \<Rightarrow> None
      | Some (l1, (t1, n1)) \<Rightarrow>
          (case And ys b s l1 of
             None \<Rightarrow> None
           | Some (l2, (t2, n2)) \<Rightarrow> Some (l2, (t1 @ t2, n1 ++ n2))))"
  by (induction xs arbitrary: loc) (auto split: option.splits)

lemma And_butlast:
  assumes "es \<noteq> []"
  shows "And es b s loc =
     (case And (butlast es) b s loc of
        None \<Rightarrow> None
      | Some (l1, (t1, n1)) \<Rightarrow>
          (case last es b s l1 of
             None \<Rightarrow> None
           | Some (l2, (t2, n2)) \<Rightarrow> Some (l2, (t1 @ t2, n1 ++ n2))))"
proof -
  have "And es b s loc = And (butlast es @ [last es]) b s loc"
    using assms by simp
  then show ?thesis
    by (simp only: And_append) (auto split: option.splits)
qed

text \<open>\<^verbatim>\<open>StringEnd\<close> matches exactly when nothing but whitespace is left.\<close>

lemma StringEnd_iff:
  "StringEnd True s loc \<noteq> None \<longleftrightarrow> (\<forall>c\<in>set (drop loc s). c \<in> set DEFAULT_WHITE_CHARS)"
proof -
  let ?P = "\<lambda>c. c \<in> set DEFAULT_WHITE_CHARS"
  have "preParse True DEFAULT_WHITE_CHARS s loc < length s
          \<longleftrightarrow> length (takeWhile ?P (drop loc s)) < length (drop loc s)"
    by (auto simp add: preParse_def)
  also have "\<dots> \<longleftrightarrow> takeWhile ?P (drop loc s) \<noteq> drop loc s"
    by (metis length_takeWhile_le nat_less_le takeWhile_eq_take take_all_iff)
  also have "\<dots> \<longleftrightarrow> \<not> (\<forall>c\<in>set (drop loc s). ?P c)"
    by (simp add: takeWhile_eq_all_conv)
  finally show ?thesis
    by (auto simp add: StringEnd_def Let_def)
qed

lemma anchored_by_StringEnd:
  assumes "es \<noteq> []" and "last es = StringEnd"
    and "map_option fst (And (butlast es) True (expandtabs text) 0) = Some loc"
  shows "parseString (And es) text \<noteq> None
           \<longleftrightarrow> (\<forall>c\<in>set (drop loc (expandtabs text)). c \<in> set DEFAULT_WHITE_CHARS)"
proof -
  from assms(3) obtain t1 n1
    where h: "And (butlast es) True (expandtabs text) 0 = Some (loc, (t1, n1))"
    by (cases "And (butlast es) True (expandtabs text) 0") auto
  have "And es True (expandtabs text) 0 \<noteq> None \<longleftrightarrow> StringEnd True (expandtabs text) loc \<noteq> None"
    using h assms(2) by (simp add: And_butlast [OF assms(1)] split: option.splits)
  also have "\<dots> \<longleftrightarrow> (\<forall>c\<in>set (drop loc (expandtabs text)). c \<in> set DEFAULT_WHITE_CHARS)"
    by (rule StringEnd_iff)
  finally show ?thesis
    by (simp add: parseString_def)
qed

text \<open>\<^verbatim>\<open>LineEnd\<close> matches a line feed after blanks, whatever follows the line feed.\<close>

lemma LineEnd_line_feed:
  assumes "drop loc s = w @ CHR 0x0A # rest"
    and "set w \<subseteq> set (removeAll (CHR 0x0A) DEFAULT_WHITE_CHARS)"
  shows "LineEnd True s loc = Some (loc + length w + 1, ([[CHR 0x0A]], Map.empty))"
proof -
  let ?P = "\<lambda>c. c \<in> set (removeAll (CHR 0x0A) DEFAULT_WHITE_CHARS)"
  have "takeWhile ?P (drop loc s) = w"
    using assms
    by (simp add: takeWhile_tail takeWhile_eq_all_conv [THEN iffD2] subset_iff
        DEFAULT_WHITE_CHARS_def)
  then have p: "preParse True (removeAll (CHR 0x0A) DEFAULT_WHITE_CHARS) s loc = loc + length w"
    by (simp add: preParse_def)
  have "length (drop loc s) = length w + Suc (length rest)"
    by (simp add: assms(1))
  then have len: "loc + length w < length s"
    by simp
  have "s ! (loc + length w) = (drop loc s) ! length w"
    using len by simp
  also have "\<dots> = CHR 0x0A" by (simp add: assms(1))
  finally show ?thesis using p len by (simp add: LineEnd_def Let_def)
qed

text \<open>
  Claim C3, as the code has it.  Let the elements of a grammar before its end anchor
  match a body (after tab expansion) up to location \<open>loc\<close>.  The login grammar and the
  failed connection grammar then match exactly when only whitespace follows \<open>loc\<close>: any
  other trailing text makes them fail, trailing whitespace does not.  The opened
  connection grammar matches when blanks, a line feed and arbitrary further content
  follow \<open>loc\<close>.
\<close>

theorem end_anchoring:
  "(map_option fst (And (butlast LOGIN_ELEMENTS) True (expandtabs text) 0) = Some loc \<longrightarrow>
      (parseString LOGIN_GRAMMAR text \<noteq> None
         \<longleftrightarrow> (\<forall>c\<in>set (drop loc (expandtabs text)). c \<in> set DEFAULT_WHITE_CHARS)))
   \<and> (map_option fst (And (butlast FAILED_CONNECTION_ELEMENTS) True (expandtabs text) 0)
          = Some loc \<longrightarrow>
      (parseString FAILED_CONNECTION_GRAMMAR text \<noteq> None
         \<longleftrightarrow> (\<forall>c\<in>set (drop loc (expandtabs text)). c \<in> set DEFAULT_WHITE_CHARS)))
   \<and> (map_option fst (And (butlast OPENED_CONNECTION_ELEMENTS) True (expandtabs text) 0)
          = Some loc
        \<and> drop loc (expandtabs text) = w @ CHR 0x0A # rest
        \<and> set w \<subseteq> set (removeAll (CHR 0x0A) DEFAULT_WHITE_CHARS) \<longrightarrow>
      parseString OPENED_CONNECTION_GRAMMAR text \<noteq> None)"
proof (intro conjI impI)
  assume "map_option fst (And (butlast LOGIN_ELEMENTS) True (expandtabs text) 0) = Some loc"
  then show "parseString LOGIN_GRAMMAR text \<noteq> None
         \<longleftrightarrow> (\<forall>c\<in>set (drop loc (expandtabs text)). c \<in> set DEFAULT_WHITE_CHARS)"
    unfolding LOGIN_GRAMMAR_def
    by (rule anchored_by_StringEnd [rotated 2]) (simp_all add: LOGIN_ELEMENTS_def)
next
  assume "map_option fst (And (butlast FAILED_CONNECTION_ELEMENTS) True (expandtabs text) 0)
            = Some loc"
  then show "parseString FAILED_CONNECTION_GRAMMAR text \<noteq> None
         \<longleftrightarrow> (\<forall>c\<in>set (drop loc (expandtabs text)). c \<in> set DEFAULT_WHITE_CHARS)"
    unfolding FAILED_CONNECTION_GRAMMAR_def
    by (rule anchored_by_StringEnd [rotated 2]) (simp_all add: FAILED_CONNECTION_ELEMENTS_def)
next
  assume a: "map_option fst (And (butlast OPENED_CONNECTION_ELEMENTS) True (expandtabs text) 0)
               = Some loc
        \<and> drop loc (expandtabs text) = w @ CHR 0x0A # rest
        \<and> set w \<subseteq> set (removeAll (CHR 0x0A) DEFAULT_WHITE_CHARS)"
  then obtain t1 n1
    where h: "And (butlast OPENED_CONNECTION_ELEMENTS) True (expandtabs text) 0
                = Some (loc, (t1, n1))"
    by (cases "And (butlast OPENED_CONNECTION_ELEMENTS) True (expandtabs text) 0") auto
  have l: "last OPENED_CONNECTION_ELEMENTS = LineEnd" and ne: "OPENED_CONNECTION_ELEMENTS \<noteq> []"
    by (simp_all add: OPENED_CONNECTION_ELEMENTS_def)
  have "LineEnd True (expandtabs text) loc \<noteq> None"
    using a LineEnd_line_feed [of loc "expandtabs text" w rest] by simp
  then show "parseString OPENED_CONNECTION_GRAMMAR text \<noteq> None"
    using h l
    by (auto simp add: parseString_def OPENED_CONNECTION_GRAMMAR_def And_butlast [OF ne]
        split: option.splits)
qed

theorem end_anchoring_witness:
  "parseString LOGIN_GRAMMAR ''Accepted password for alice from 10.0.0.5 port 22 ssh2 now'' = None
   \<and> parseString FAILED_CONNECTION_GRAMMAR ''Failed password for root from 192.168.1.1 port 22  ''
       \<noteq> None
   \<and> parseString OPENED_CONNECTION_GRAMMAR
       (''Connection from 2001:db8::1 port 22 '' @ CHR 0x0A # ''tail of the message'') \<noteq> None"
proof -
  let ?a = "''Accepted password for alice from 10.0.0.5 port 22 ssh2 now''"
  let ?b = "''Failed password for root from 192.168.1.1 port 22  ''"
  let ?c = "''Connection from 2001:db8::1 port 22 '' @ CHR 0x0A # ''tail of the message''"
  have a: "map_option fst (And (butlast LOGIN_ELEMENTS) True (expandtabs ?a) 0) = Some 55"
    by code_simp
  have a': "\<not> (\<forall>c\<in>set (drop 55 (expandtabs ?a)). c \<in> set DEFAULT_WHITE_CHARS)"
    by code_simp
  have b: "map_option fst (And (butlast FAILED_CONNECTION_ELEMENTS) True (expandtabs ?b) 0)
             = Some 49"
    by code_simp
  have b': "\<forall>c\<in>set (drop 49 (expandtabs ?b)). c \<in> set DEFAULT_WHITE_CHARS"
    by code_simp
  have c: "map_option fst (And (butlast OPENED_CONNECTION_ELEMENTS) True (expandtabs ?c) 0)
             = Some 35"
    by code_simp
  have c': "drop 35 (expandtabs ?c) = '' '' @ CHR 0x0A # ''tail of the message''"
    by code_simp
  have c'': "set '' '' \<subseteq> set (removeAll (CHR 0x0A) DEFAULT_WHITE_CHARS)"
    by code_simp
  show ?thesis
    using end_anchoring [of ?a 55] end_anchoring [of ?b 49]
      end_anchoring [of ?c 35 "'' ''" "''tail of the message''"] a a' b b' c c' c''
    by blast
qed

text \<open>
  Claim C3 as stated fails: a body that matches still matches after trailing text is
  appended when that text is whitespace, continues the last token, or is the optional
  fingerprint clause.
\<close>

theorem trailing_text_counterexample:
  "parseString LOGIN_GRAMMAR ''Accepted password for alice from 10.0.0.5 port 22 ssh2'' \<noteq> None
   \<and> parseString LOGIN_GRAMMAR (''Accepted password for alice from 10.0.0.5 port 22 ssh2'' @ '' '')
       \<noteq> None
   \<and> parseString LOGIN_GRAMMAR
       (''Accepted password for alice from 10.0.0.5 port 22 ssh2'' @ '': RSA aa:bb'') \<noteq> None
   \<and> parseString FAILED_CONNECTION_GRAMMAR ''Failed password for root from 192.168.1.1 port 2''
       \<noteq> None
   \<and> parseString FAILED_CONNECTION_GRAMMAR
       (''Failed password for root from 192.168.1.1 port 2'' @ ''2'') \<noteq> None"
  by code_simp

section \<open>Classification\<close>

text \<open>The loop returns the first grammar of the list that matches, whatever the list.\<close>

lemma classify_with_first_match:
  "classify_with gs text = Some (key, d) \<longleftrightarrow>
     (\<exists>i<length gs. fst (gs ! i) = key
        \<and> (\<exists>t. parseString (snd (gs ! i)) text = Some t \<and> d = asDict t)
        \<and> (\<forall>j<i. parseString (snd (gs ! j)) text = None))"
proof (induction gs)
  case Nil
  then show ?case by simp
next
  case (Cons g gs)
  obtain k e where g: "g = (k, e)" by (cases g)
  show ?case
  proof (cases "parseString e text")
    case None
    have "(\<exists>i<length (g # gs). fst ((g # gs) ! i) = key
        \<and> (\<exists>t. parseString (snd ((g # gs) ! i)) text = Some t \<and> d = asDict t)
        \<and> (\<forall>j<i. parseString (snd ((g # gs) ! j)) text = None))
      \<longleftrightarrow> (\<exists>i<length gs. fst (gs ! i) = key
        \<and> (\<exists>t. parseString (snd (gs ! i)) text = Some t \<and> d = asDict t)
        \<and> (\<forall>j<i. parseString (snd (gs ! j)) text = None))" (is "?L \<longleftrightarrow> ?R")
    proof
      assume ?L
      then obtain i where i: "i < length (g # gs)" "fst ((g # gs) ! i) = key"
        "\<exists>t. parseString (snd ((g # gs) ! i)) text = Some t \<and> d = asDict t"
        "\<forall>j<i. parseString (snd ((g # gs) ! j)) text = None" by blast
      from i(3) None g have "i \<noteq> 0" by (cases i) auto
      then obtain i' where i': "i = Suc i'" by (cases i) auto
      have "\<forall>j<i'. parseString (snd (gs ! j)) text = None"
        using i(4) i' by (metis Suc_less_eq nth_Cons_Suc)
      with i i' show ?R by auto
    next
      assume ?R
      then obtain i where i: "i < length gs" "fst (gs ! i) = key"
        "\<exists>t. parseString (snd (gs ! i)) text = Some t \<and> d = asDict t"
        "\<forall>j<i. parseString (snd (gs ! j)) text = None" by blast
      have "\<forall>j<Suc i. parseString (snd ((g # gs) ! j)) text = None"
        using i(4) None g by (auto simp add: less_Suc_eq_0_disj)
      with i show ?L by (intro exI [of _ "Suc i"]) auto
    qed
    with None g Cons.IH show ?thesis by simp
  next
    case (Some t)
    have "(\<exists>i<length (g # gs). fst ((g # gs) ! i) = key
        \<and> (\<exists>t. parseString (snd ((g # gs) ! i)) text = Some t \<and> d = asDict t)
        \<and> (\<forall>j<i. parseString (snd ((g # gs) ! j)) text = None))
      \<longleftrightarrow> (k = key \<and> d = asDict t)" (is "?L \<longleftrightarrow> ?R")
    proof
      assume ?L
      then obtain i where i: "i < length (g # gs)" "fst ((g # gs) ! i) = key"
        "\<exists>t. parseString (snd ((g # gs) ! i)) text = Some t \<and> d = asDict t"
        "\<forall>j<i. parseString (snd ((g # gs) ! j)) text = None" by blast
      have "i = 0"
      proof (rule ccontr)
        assume "i \<noteq> 0"
        then have "parseString (snd ((g # gs) ! 0)) text = None" using i(4) by blast
        with Some g show False by simp
      qed
      with i Some g show ?R by simp
    next
      assume ?R
      with Some g show ?L by (intro exI [of _ 0]) auto
    qed
    with Some g show ?thesis by auto
  qed
qed

text \<open>
  Claim C4.  The declared list names \<open>login\<close>, \<open>failed_connection\<close>, \<open>opened_connection\<close>
  in this order, and classification returns a category and token mapping exactly when
  that category's grammar matches the body and no grammar before it in the list does;
  spelled out, the login grammar is tried first, then the failed connection grammar,
  then the opened connection grammar.
\<close>

theorem classify_first_match:
  "map fst MESSAGE_GRAMMARS = [''login'', ''failed_connection'', ''opened_connection'']
   \<and> (classify text = Some (key, d) \<longleftrightarrow>
     (\<exists>i<length MESSAGE_GRAMMARS. fst (MESSAGE_GRAMMARS ! i) = key
        \<and> (\<exists>t. parseString (snd (MESSAGE_GRAMMARS ! i)) text = Some t \<and> d = asDict t)
        \<and> (\<forall>j<i. parseString (snd (MESSAGE_GRAMMARS ! j)) text = None)))
   \<and> classify text =
      (case parseString LOGIN_GRAMMAR text of
         Some t \<Rightarrow> Some (''login'', asDict t)
       | None \<Rightarrow>
          (case parseString FAILED_CONNECTION_GRAMMAR text of
             Some t \<Rightarrow> Some (''failed_connection'', asDict t)
           | None \<Rightarrow>
              (case parseString OPENED_CONNECTION_GRAMMAR text of
                 Some t \<Rightarrow> Some (''opened_connection'', asDict t)
               | None \<Rightarrow> None)))"
  unfolding classify_def
  by (intro conjI classify_with_first_match)
    (simp_all add: MESSAGE_GRAMMARS_def split: option.splits)

theorem classify_first_match_witness:
  "parseString (snd (MESSAGE_GRAMMARS ! 0)) ''Failed password for root from 192.168.1.1 port 22''
     = None
   \<and> (\<exists>t. parseString (snd (MESSAGE_GRAMMARS ! 1))
              ''Failed password for root from 192.168.1.1 port 22'' = Some t
          \<and> classify ''Failed password for root from 192.168.1.1 port 22''
              = Some (''failed_connection'', asDict t))"
proof -
  let ?b = "''Failed password for root from 192.168.1.1 port 22''"
  have n: "parseString (snd (MESSAGE_GRAMMARS ! 0)) ?b = None"
    by code_simp
  have "parseString (snd (MESSAGE_GRAMMARS ! 1)) ?b \<noteq> None"
    by code_simp
  then obtain t where t: "parseString (snd (MESSAGE_GRAMMARS ! 1)) ?b = Some t"
    by blast
  have k: "fst (MESSAGE_GRAMMARS ! 1) = ''failed_connection''"
    and l: "1 < length MESSAGE_GRAMMARS"
    by (simp_all add: MESSAGE_GRAMMARS_def)
  have "\<exists>i<length MESSAGE_GRAMMARS. fst (MESSAGE_GRAMMARS ! i) = ''failed_connection''
        \<and> (\<exists>t'. parseString (snd (MESSAGE_GRAMMARS ! i)) ?b = Some t' \<and> asDict t = asDict t')
        \<and> (\<forall>j<i. parseString (snd (MESSAGE_GRAMMARS ! j)) ?b = None)"
    using n t k l by (intro exI [of _ 1]) auto
  then have "classify ?b = Some (''failed_connection'', asDict t)"
    using classify_first_match [of ?b "''failed_connection''" "asDict t"] by blast
  with n t show ?thesis by blast
qed

text \<open>
  Claim C8.  The body \<^verbatim>\<open>Accepted password for alice from 10.0.0.5 port 22 ssh2\<close> is
  classified as \<open>login\<close> with username \<open>alice\<close>, authentication method \<open>password\<close>,
  address \<open>10.0.0.5\<close>, port \<open>22\<close>, protocol \<open>ssh2\<close> and no fingerprint.
\<close>

lemma classify_login_example_eval:
  "case classify ''Accepted password for alice from 10.0.0.5 port 22 ssh2'' of
     None \<Rightarrow> False
   | Some (key, tokens) \<Rightarrow>
       key = ''login'' \<and> tokens ''username'' = Some ''alice''
       \<and> tokens ''authentication_method'' = Some ''password''
       \<and> tokens ''address'' = Some ''10.0.0.5''
       \<and> tokens ''port'' = Some ''22'' \<and> tokens ''protocol'' = Some ''ssh2''
       \<and> tokens ''fingerprint'' = None"
  by code_simp

theorem classify_login_example:
  "\<exists>tokens.
     classify ''Accepted password for alice from 10.0.0.5 port 22 ssh2'' = Some (''login'', tokens)
     \<and> tokens ''username'' = Some ''alice''
     \<and> tokens ''authentication_method'' = Some ''password''
     \<and> tokens ''address'' = Some ''10.0.0.5''
     \<and> tokens ''port'' = Some ''22''
     \<and> tokens ''protocol'' = Some ''ssh2''
     \<and> tokens ''fingerprint'' = None"
  using classify_login_example_eval by (auto split: option.splits)

section \<open>Words\<close>

lemma takeWhile_length_nth:
  assumes "n < length (takeWhile P xs)"
  shows "n < length xs \<and> P (xs ! n)"
proof -
  have "n < length xs"
    using assms length_takeWhile_le [of P xs] by simp
  moreover have "takeWhile P xs ! n = xs ! n"
    using assms by (rule takeWhile_nth)
  moreover have "P (takeWhile P xs ! n)"
    using assms by (meson nth_mem set_takeWhileD)
  ultimately show ?thesis by simp
qed

lemma Word_first_max:
  assumes "0 < maxLen"
    and "maxLen < length (takeWhile (\<lambda>c. c \<in> set chars)
           (dropWhile (\<lambda>c. c \<in> set DEFAULT_WHITE_CHARS) (drop loc s)))"
  shows "Word chars maxLen True s loc
           = Some (preParse True DEFAULT_WHITE_CHARS s loc + maxLen,
               ([take maxLen (drop (preParse True DEFAULT_WHITE_CHARS s loc) s)], Map.empty))"
    and "preParse True DEFAULT_WHITE_CHARS s loc + maxLen < length s"
    and "s ! (preParse True DEFAULT_WHITE_CHARS s loc + maxLen) \<in> set chars"
proof -
  define start where "start = preParse True DEFAULT_WHITE_CHARS s loc"
  define run where "run = takeWhile (\<lambda>c. c \<in> set chars) (drop start s)"
  have run: "maxLen < length run"
    using assms(2) by (simp add: run_def start_def preParse_drop)
  from takeWhile_length_nth [OF run [unfolded run_def]]
  have "maxLen < length (drop start s)" and "drop start s ! maxLen \<in> set chars"
    by simp_all
  then show "start + maxLen < length s" and "s ! (start + maxLen) \<in> set chars"
    by simp_all
  have "Word chars maxLen True s loc =
     (if (if 0 < maxLen then min maxLen (length run) else length run) < 1 then None
      else Some (start + (if 0 < maxLen then min maxLen (length run) else length run),
        ([take (if 0 < maxLen then min maxLen (length run) else length run) (drop start s)],
         Map.empty)))"
    by (simp only: Word_def Let_def start_def run_def)
  then show "Word chars maxLen True s loc
           = Some (start + maxLen, ([take maxLen (drop start s)], Map.empty))"
    using assms(1) run by (simp add: min_def)
qed

lemma Word_token:
  assumes "Word chars maxLen b s loc = Some (loc', (toks, named))"
  shows "\<exists>x. toks = [x] \<and> named = Map.empty \<and> x \<noteq> [] \<and> set x \<subseteq> set chars
           \<and> (0 < maxLen \<longrightarrow> length x \<le> maxLen)
           \<and> x = take (length x) (drop (preParse b DEFAULT_WHITE_CHARS s loc) s)
           \<and> loc' = preParse b DEFAULT_WHITE_CHARS s loc + length x"
proof -
  define start where "start = preParse b DEFAULT_WHITE_CHARS s loc"
  define run where "run = takeWhile (\<lambda>c. c \<in> set chars) (drop start s)"
  define n where "n = (if 0 < maxLen then min maxLen (length run) else length run)"
  define x where "x = take n (drop start s)"
  have w: "Word chars maxLen b s loc =
     (if n < 1 then None
      else Some (start + n, ([x], Map.empty)))"
    by (simp only: Word_def Let_def start_def run_def n_def x_def)
  from assms have n: "1 \<le> n" and r: "loc' = start + n" "toks = [x]" "named = Map.empty"
    unfolding w by (simp_all split: if_splits)
  have le: "n \<le> length run" by (simp add: n_def)
  have "run = take (length run) (drop start s)"
    unfolding run_def by (rule takeWhile_eq_take)
  then have "take n run = take n (drop start s)"
    using le by (metis min.absorb1 take_take)
  then have xr: "x = take n run" by (simp add: x_def)
  have sub: "set x \<subseteq> set chars"
  proof
    fix c assume "c \<in> set x"
    then have "c \<in> set run" unfolding xr by (rule in_set_takeD)
    then show "c \<in> set chars" unfolding run_def by (rule set_takeWhileD [THEN conjunct2])
  qed
  have len: "length x = n"
    using le by (simp add: xr)
  have "x \<noteq> []" using n len by auto
  moreover have "0 < maxLen \<longrightarrow> length x \<le> maxLen" using len by (simp add: n_def)
  moreover have "x = take (length x) (drop start s)" using len by (simp add: x_def)
  moreover have "loc' = start + length x" using r len by simp
  ultimately show ?thesis using r sub unfolding start_def by blast
qed

lemma Word_whole:
  assumes "x \<noteq> []" and "set x \<subseteq> set chars" and "set chars \<inter> set DEFAULT_WHITE_CHARS = {}"
    and "maxLen = 0 \<or> length x \<le> maxLen"
  shows "Word chars maxLen True x 0 = Some (length x, ([x], Map.empty))"
proof -
  have "hd x \<notin> set DEFAULT_WHITE_CHARS"
    using assms(1,2,3) by (metis disjoint_iff hd_in_set subsetD)
  then have "takeWhile (\<lambda>c. c \<in> set DEFAULT_WHITE_CHARS) x = []"
    using assms(1) by (cases x) auto
  then have p: "preParse True DEFAULT_WHITE_CHARS x 0 = 0"
    by (simp add: preParse_def)
  have run: "takeWhile (\<lambda>c. c \<in> set chars) x = x"
    using assms(2) by (simp add: takeWhile_eq_all_conv subset_iff)
  show ?thesis
    using assms(1,4) by (auto simp add: Word_def Let_def p run min_def)
qed

lemma expandtabs_from_no_tab: "CHR 0x09 \<notin> set x \<Longrightarrow> expandtabs_from j x = x"
  by (induction x arbitrary: j) auto

lemma And_take_None:
  assumes "n < length es"
    and "map_option fst (And (take n es) b s loc0) = Some loc"
    and "(es ! n) b s loc = None"
  shows "And es b s loc0 = None"
proof -
  have "es = take n es @ es ! n # drop (Suc n) es"
    using assms(1) by (simp add: id_take_nth_drop [symmetric])
  then have "And es b s loc0 = And (take n es @ es ! n # drop (Suc n) es) b s loc0"
    by simp
  also have "\<dots> = None"
    using assms(2,3) by (auto simp add: And_append split: option.splits)
  finally show ?thesis .
qed

lemma nums_not_white: "set nums \<inter> set DEFAULT_WHITE_CHARS = {}"
  by (simp add: nums_def DEFAULT_WHITE_CHARS_def)

lemma And_take_Suc:
  assumes "n < length es"
    and "map_option fst (And (take n es) b s loc0) = Some loc"
    and "(es ! n) b s loc = Some (loc', r)"
  shows "map_option fst (And (take (Suc n) es) b s loc0) = Some loc'"
proof -
  have "take (Suc n) es = take n es @ [es ! n]"
    using assms(1) by (rule take_Suc_conv_app_nth)
  then show ?thesis
    using assms(2,3) by (auto simp add: And_append split: option.splits)
qed

text \<open>
  With six or more digits at its place, the port is the first five of them, and the
  sixth digit is what the next element meets.
\<close>

lemma PORT_first_five:
  assumes "6 \<le> length (takeWhile (\<lambda>c. c \<in> set nums)
             (dropWhile (\<lambda>c. c \<in> set DEFAULT_WHITE_CHARS) (drop loc s)))"
  shows "PORT True s loc
           = Some (preParse True DEFAULT_WHITE_CHARS s loc + 5,
               ([take 5 (drop (preParse True DEFAULT_WHITE_CHARS s loc) s)],
                [''port'' \<mapsto> take 5 (drop (preParse True DEFAULT_WHITE_CHARS s loc) s)]))"
    and "preParse True DEFAULT_WHITE_CHARS s loc + 5 < length s"
    and "s ! (preParse True DEFAULT_WHITE_CHARS s loc + 5) \<in> set nums"
proof -
  have five: "(0::nat) < 5" by simp
  have more: "5 < length (takeWhile (\<lambda>c. c \<in> set nums)
             (dropWhile (\<lambda>c. c \<in> set DEFAULT_WHITE_CHARS) (drop loc s)))"
    using assms by simp
  note w = Word_first_max [OF five more]
  show "PORT True s loc
           = Some (preParse True DEFAULT_WHITE_CHARS s loc + 5,
               ([take 5 (drop (preParse True DEFAULT_WHITE_CHARS s loc) s)],
                [''port'' \<mapsto> take 5 (drop (preParse True DEFAULT_WHITE_CHARS s loc) s)]))"
    by (simp add: PORT_def setResultsName_def w(1))
  show "preParse True DEFAULT_WHITE_CHARS s loc + 5 < length s" by (rule w(2))
  show "s ! (preParse True DEFAULT_WHITE_CHARS s loc + 5) \<in> set nums" by (rule w(3))
qed

lemma preParse_at_other:
  assumes "p < length s" and "s ! p \<notin> set wt"
  shows "preParse True wt s p = p"
proof -
  have "drop p s = s ! p # drop (Suc p) s"
    using assms(1) by (rule Cons_nth_drop_Suc [symmetric])
  then have "takeWhile (\<lambda>c. c \<in> set wt) (drop p s) = []"
    using assms(2) by simp
  then show ?thesis by (simp add: preParse_def)
qed

lemma StringEnd_before_text:
  assumes "p < length s" and "s ! p \<notin> set DEFAULT_WHITE_CHARS"
  shows "StringEnd True s p = None"
  using assms by (simp add: StringEnd_def preParse_at_other)

lemma Literal_before_other:
  assumes "p < length s" and "s ! p \<notin> set DEFAULT_WHITE_CHARS" and "m \<noteq> []" and "s ! p \<noteq> hd m"
  shows "Literal m True s p = None"
proof -
  have d: "drop p s = s ! p # drop (Suc p) s"
    using assms(1) by (rule Cons_nth_drop_Suc [symmetric])
  have "\<not> startswith s m p"
  proof
    assume "startswith s m p"
    then have "take (length m) (s ! p # drop (Suc p) s) = m"
      by (simp add: startswith_def d)
    then have "hd m = s ! p"
      using assms(3) by (cases m) auto
    with assms(4) show False by simp
  qed
  then show ?thesis
    using assms(1,2) by (simp add: Literal_def preParse_at_other)
qed

lemma digit_not_white: "c \<in> set nums \<Longrightarrow> c \<notin> set DEFAULT_WHITE_CHARS"
  using nums_not_white by blast

text \<open>
  Claim C7.  The port element accepts every string of one to five decimal digits, and
  whenever it matches, its token is one to five decimal digits of the input.  With six
  or more consecutive decimal digits at its place it takes the first five, and the end
  anchor does not match after them.  So when the elements of the login grammar or of
  the failed connection grammar before the port match and six or more digits stand at
  the port's position, the grammar does not match the body; in the failed connection
  grammar all elements before the end anchor match, the port being the first five
  digits, and the anchor is what fails.
\<close>

theorem port_digits:
  "(ds \<noteq> [] \<and> length ds \<le> 5 \<and> set ds \<subseteq> set nums \<longrightarrow>
      parseString PORT ds = Some ([ds], [''port'' \<mapsto> ds]))
   \<and> (PORT b s l = Some (l', (toks, named)) \<longrightarrow>
        (\<exists>x. toks = [x] \<and> named = [''port'' \<mapsto> x] \<and> x \<noteq> [] \<and> length x \<le> 5
           \<and> set x \<subseteq> set nums
           \<and> x = take (length x) (drop (preParse b DEFAULT_WHITE_CHARS s l) s)))
   \<and> (6 \<le> length (takeWhile (\<lambda>c. c \<in> set nums)
                 (dropWhile (\<lambda>c. c \<in> set DEFAULT_WHITE_CHARS) (drop l s))) \<longrightarrow>
        PORT True s l
          = Some (preParse True DEFAULT_WHITE_CHARS s l + 5,
              ([take 5 (drop (preParse True DEFAULT_WHITE_CHARS s l) s)],
               [''port'' \<mapsto> take 5 (drop (preParse True DEFAULT_WHITE_CHARS s l) s)]))
        \<and> StringEnd True s (preParse True DEFAULT_WHITE_CHARS s l + 5) = None)
   \<and> (map_option fst (And (take 7 LOGIN_ELEMENTS) True (expandtabs text) 0) = Some loc
        \<and> 6 \<le> length (takeWhile (\<lambda>c. c \<in> set nums)
                 (dropWhile (\<lambda>c. c \<in> set DEFAULT_WHITE_CHARS) (drop loc (expandtabs text)))) \<longrightarrow>
        parseString LOGIN_GRAMMAR text = None)
   \<and> (map_option fst (And (take 7 FAILED_CONNECTION_ELEMENTS) True (expandtabs text) 0) = Some loc
        \<and> 6 \<le> length (takeWhile (\<lambda>c. c \<in> set nums)
                 (dropWhile (\<lambda>c. c \<in> set DEFAULT_WHITE_CHARS) (drop loc (expandtabs text)))) \<longrightarrow>
        map_option fst (And (butlast FAILED_CONNECTION_ELEMENTS) True (expandtabs text) 0)
          = Some (preParse True DEFAULT_WHITE_CHARS (expandtabs text) loc + 5)
        \<and> parseString FAILED_CONNECTION_GRAMMAR text = None)"
proof (intro conjI impI)
  assume a: "ds \<noteq> [] \<and> length ds \<le> 5 \<and> set ds \<subseteq> set nums"
  then have "CHR 0x09 \<notin> set ds" by (auto simp add: nums_def)
  then have e: "expandtabs ds = ds" by (simp add: expandtabs_def expandtabs_from_no_tab)
  have "Word nums 5 True ds 0 = Some (length ds, ([ds], Map.empty))"
    using a nums_not_white by (intro Word_whole) simp_all
  then show "parseString PORT ds = Some ([ds], [''port'' \<mapsto> ds])"
    by (simp add: parseString_def e PORT_def setResultsName_def)
next
  assume "PORT b s l = Some (l', (toks, named))"
  then obtain named0 where w: "Word nums 5 b s l = Some (l', (toks, named0))"
    and n: "named = (if toks = [] then named0 else named0(''port'' \<mapsto> hd toks))"
    by (auto simp add: PORT_def setResultsName_def split: option.splits)
  from Word_token [OF w] n
  show "\<exists>x. toks = [x] \<and> named = [''port'' \<mapsto> x] \<and> x \<noteq> [] \<and> length x \<le> 5
           \<and> set x \<subseteq> set nums
           \<and> x = take (length x) (drop (preParse b DEFAULT_WHITE_CHARS s l) s)"
    by auto
next
  assume a: "6 \<le> length (takeWhile (\<lambda>c. c \<in> set nums)
                 (dropWhile (\<lambda>c. c \<in> set DEFAULT_WHITE_CHARS) (drop l s)))"
  note p = PORT_first_five [OF a]
  show "PORT True s l
          = Some (preParse True DEFAULT_WHITE_CHARS s l + 5,
              ([take 5 (drop (preParse True DEFAULT_WHITE_CHARS s l) s)],
               [''port'' \<mapsto> take 5 (drop (preParse True DEFAULT_WHITE_CHARS s l) s)]))"
    by (rule p(1))
  show "StringEnd True s (preParse True DEFAULT_WHITE_CHARS s l + 5) = None"
    using p(2) digit_not_white [OF p(3)] by (rule StringEnd_before_text)
next
  assume a: "map_option fst (And (take 7 LOGIN_ELEMENTS) True (expandtabs text) 0) = Some loc
        \<and> 6 \<le> length (takeWhile (\<lambda>c. c \<in> set nums)
                 (dropWhile (\<lambda>c. c \<in> set DEFAULT_WHITE_CHARS) (drop loc (expandtabs text))))"
  then have a1: "map_option fst (And (take 7 LOGIN_ELEMENTS) True (expandtabs text) 0) = Some loc"
    and a2: "6 \<le> length (takeWhile (\<lambda>c. c \<in> set nums)
                 (dropWhile (\<lambda>c. c \<in> set DEFAULT_WHITE_CHARS) (drop loc (expandtabs text))))"
    by blast+
  define p where "p = preParse True DEFAULT_WHITE_CHARS (expandtabs text) loc + 5"
  note f = PORT_first_five [OF a2, folded p_def]
  have l7: "7 < length LOGIN_ELEMENTS" and e7: "LOGIN_ELEMENTS ! 7 = PORT"
    and l8: "8 < length LOGIN_ELEMENTS"
    and e8: "LOGIN_ELEMENTS ! 8 = setResultsName (Literal ''ssh2'') ''protocol''"
    by (simp_all add: LOGIN_ELEMENTS_def)
  have "map_option fst (And (take (Suc 7) LOGIN_ELEMENTS) True (expandtabs text) 0) = Some p"
    using l7 a1 f(1) [folded e7] by (rule And_take_Suc)
  then have t8: "map_option fst (And (take 8 LOGIN_ELEMENTS) True (expandtabs text) 0) = Some p"
    by simp
  have "s \<noteq> CHR ''s''" if "s \<in> set nums" for s
    using that by (auto simp add: nums_def)
  then have "expandtabs text ! p \<noteq> hd ''ssh2''"
    using f(3) by simp
  with f(2) digit_not_white [OF f(3)]
  have "Literal ''ssh2'' True (expandtabs text) p = None"
    by (intro Literal_before_other) simp_all
  then have "(LOGIN_ELEMENTS ! 8) True (expandtabs text) p = None"
    by (simp add: e8 setResultsName_def)
  with l8 t8 have "And LOGIN_ELEMENTS True (expandtabs text) 0 = None"
    by (rule And_take_None)
  then show "parseString LOGIN_GRAMMAR text = None"
    by (simp add: parseString_def LOGIN_GRAMMAR_def)
next
  assume a: "map_option fst (And (take 7 FAILED_CONNECTION_ELEMENTS) True (expandtabs text) 0) = Some loc
        \<and> 6 \<le> length (takeWhile (\<lambda>c. c \<in> set nums)
                 (dropWhile (\<lambda>c. c \<in> set DEFAULT_WHITE_CHARS) (drop loc (expandtabs text))))"
  then have a1: "map_option fst (And (take 7 FAILED_CONNECTION_ELEMENTS) True (expandtabs text) 0)
                   = Some loc"
    and a2: "6 \<le> length (takeWhile (\<lambda>c. c \<in> set nums)
                 (dropWhile (\<lambda>c. c \<in> set DEFAULT_WHITE_CHARS) (drop loc (expandtabs text))))"
    by blast+
  define p where "p = preParse True DEFAULT_WHITE_CHARS (expandtabs text) loc + 5"
  note f = PORT_first_five [OF a2, folded p_def]
  have l7: "7 < length FAILED_CONNECTION_ELEMENTS" and e7: "FAILED_CONNECTION_ELEMENTS ! 7 = PORT"
    and l8: "8 < length FAILED_CONNECTION_ELEMENTS"
    and e8: "FAILED_CONNECTION_ELEMENTS ! 8 = StringEnd"
    and bl: "butlast FAILED_CONNECTION_ELEMENTS = take 8 FAILED_CONNECTION_ELEMENTS"
    by (simp_all add: FAILED_CONNECTION_ELEMENTS_def)
  have "map_option fst (And (take (Suc 7) FAILED_CONNECTION_ELEMENTS) True (expandtabs text) 0)
          = Some p"
    using l7 a1 f(1) [folded e7] by (rule And_take_Suc)
  then have t8: "map_option fst (And (take 8 FAILED_CONNECTION_ELEMENTS) True (expandtabs text) 0)
                   = Some p"
    by simp
  then show "map_option fst (And (butlast FAILED_CONNECTION_ELEMENTS) True (expandtabs text) 0)
          = Some (preParse True DEFAULT_WHITE_CHARS (expandtabs text) loc + 5)"
    by (simp only: bl p_def)
  have "StringEnd True (expandtabs text) p = None"
    using f(2) digit_not_white [OF f(3)] by (rule StringEnd_before_text)
  then have "(FAILED_CONNECTION_ELEMENTS ! 8) True (expandtabs text) p = None"
    by (simp only: e8)
  with l8 t8 have "And FAILED_CONNECTION_ELEMENTS True (expandtabs text) 0 = None"
    by (rule And_take_None)
  then show "parseString FAILED_CONNECTION_GRAMMAR text = None"
    by (simp add: parseString_def FAILED_CONNECTION_GRAMMAR_def)
qed

theorem port_digits_witness:
  "parseString PORT ''65535'' = Some ([''65535''], [''port'' \<mapsto> ''65535''])
   \<and> (\<exists>x. x \<noteq> [] \<and> length x \<le> 5 \<and> set x \<subseteq> set nums
         \<and> PORT True ''port 2222'' 4 = Some (9, ([x], [''port'' \<mapsto> x])))
   \<and> PORT True ''port 1234567'' 4 = Some (10, ([''12345''], [''port'' \<mapsto> ''12345'']))
   \<and> StringEnd True ''port 1234567'' 10 = None
   \<and> parseString LOGIN_GRAMMAR ''Accepted password for alice from 10.0.0.5 port 123456 ssh2'' = None
   \<and> map_option fst (And (butlast FAILED_CONNECTION_ELEMENTS) True
        (expandtabs ''Failed password for root from 192.168.1.1 port 1234567'') 0) = Some 52
   \<and> parseString FAILED_CONNECTION_GRAMMAR ''Failed password for root from 192.168.1.1 port 1234567''
       = None"
proof -
  let ?a = "''Accepted password for alice from 10.0.0.5 port 123456 ssh2''"
  let ?b = "''Failed password for root from 192.168.1.1 port 1234567''"
  let ?c = "''port 1234567''"
  have d: "''65535'' \<noteq> [] \<and> length ''65535'' \<le> 5 \<and> set ''65535'' \<subseteq> set nums"
    by code_simp
  have a: "map_option fst (And (take 7 LOGIN_ELEMENTS) True (expandtabs ?a) 0) = Some 46
        \<and> 6 \<le> length (takeWhile (\<lambda>c. c \<in> set nums)
                 (dropWhile (\<lambda>c. c \<in> set DEFAULT_WHITE_CHARS) (drop 46 (expandtabs ?a))))"
    by code_simp
  have b: "map_option fst (And (take 7 FAILED_CONNECTION_ELEMENTS) True (expandtabs ?b) 0) = Some 46
        \<and> 6 \<le> length (takeWhile (\<lambda>c. c \<in> set nums)
                 (dropWhile (\<lambda>c. c \<in> set DEFAULT_WHITE_CHARS) (drop 46 (expandtabs ?b))))"
    by code_simp
  have bp: "preParse True DEFAULT_WHITE_CHARS (expandtabs ?b) 46 + 5 = 52"
    by code_simp
  have c: "6 \<le> length (takeWhile (\<lambda>c. c \<in> set nums)
                 (dropWhile (\<lambda>c. c \<in> set DEFAULT_WHITE_CHARS) (drop 4 ?c)))"
    by code_simp
  have cp: "preParse True DEFAULT_WHITE_CHARS ?c 4 = 5"
    by code_simp
  have ct: "take 5 (drop 5 ?c) = ''12345''"
    by code_simp
  have "map_option fst (PORT True ''port 2222'' 4) = Some 9"
    by code_simp
  then obtain toks named where p: "PORT True ''port 2222'' 4 = Some (9, (toks, named))"
    by (cases "PORT True ''port 2222'' 4") auto
  note t1 = port_digits [of "''65535''" True "''port 2222''" 4 9 toks named ?a 46]
  note t2 = port_digits [of "''65535''" True ?c 4 9 toks named ?b 46]
  have 1: "parseString PORT ''65535'' = Some ([''65535''], [''port'' \<mapsto> ''65535''])"
    using t1 [THEN conjunct1] d by (rule mp)
  have "\<exists>x. toks = [x] \<and> named = [''port'' \<mapsto> x] \<and> x \<noteq> [] \<and> length x \<le> 5
           \<and> set x \<subseteq> set nums
           \<and> x = take (length x) (drop (preParse True DEFAULT_WHITE_CHARS ''port 2222'' 4)
                  ''port 2222'')"
    using t1 [THEN conjunct2, THEN conjunct1] p by (rule mp)
  then have 2: "\<exists>x. x \<noteq> [] \<and> length x \<le> 5 \<and> set x \<subseteq> set nums
         \<and> PORT True ''port 2222'' 4 = Some (9, ([x], [''port'' \<mapsto> x]))"
    using p by blast
  have "PORT True ?c 4
          = Some (preParse True DEFAULT_WHITE_CHARS ?c 4 + 5,
              ([take 5 (drop (preParse True DEFAULT_WHITE_CHARS ?c 4) ?c)],
               [''port'' \<mapsto> take 5 (drop (preParse True DEFAULT_WHITE_CHARS ?c 4) ?c)]))
        \<and> StringEnd True ?c (preParse True DEFAULT_WHITE_CHARS ?c 4 + 5) = None"
    using t2 [THEN conjunct2, THEN conjunct2, THEN conjunct1] c by (rule mp)
  then have 3: "PORT True ?c 4 = Some (10, ([''12345''], [''port'' \<mapsto> ''12345'']))
        \<and> StringEnd True ?c 10 = None"
    unfolding cp ct by simp
  have 4: "parseString LOGIN_GRAMMAR ?a = None"
    using t1 [THEN conjunct2, THEN conjunct2, THEN conjunct2, THEN conjunct1] a by (rule mp)
  have "map_option fst (And (butlast FAILED_CONNECTION_ELEMENTS) True (expandtabs ?b) 0)
          = Some (preParse True DEFAULT_WHITE_CHARS (expandtabs ?b) 46 + 5)
        \<and> parseString FAILED_CONNECTION_GRAMMAR ?b = None"
    using t2 [THEN conjunct2, THEN conjunct2, THEN conjunct2, THEN conjunct2] b by (rule mp)
  then have 5: "map_option fst (And (butlast FAILED_CONNECTION_ELEMENTS) True (expandtabs ?b) 0)
          = Some 52
        \<and> parseString FAILED_CONNECTION_GRAMMAR ?b = None"
    unfolding bp .
  from 1 2 3 4 5 show ?thesis by (intro conjI) (erule conjunct1 conjunct2 | assumption)+
qed

section \<open>Names of results\<close>

lemma names_withinI:
  "(\<And>b s l l' toks named. e b s l = Some (l', (toks, named)) \<Longrightarrow> dom named \<subseteq> N)
     \<Longrightarrow> names_within N e"
  by (auto simp add: names_within_def)

lemma names_withinD:
  "names_within N e \<Longrightarrow> e b s l = Some (l', (toks, named)) \<Longrightarrow> dom named \<subseteq> N"
  unfolding names_within_def by blast

lemma names_within_mono: "names_within N e \<Longrightarrow> N \<subseteq> M \<Longrightarrow> names_within M e"
  unfolding names_within_def by blast

lemma names_Literal: "names_within N (Literal m)"
  by (rule names_withinI) (auto simp add: Literal_def Let_def split: if_splits)

lemma names_Keyword: "names_within N (Keyword m)"
  by (rule names_withinI) (auto simp add: Keyword_def Let_def split: if_splits)

lemma names_Word: "names_within N (Word chars maxLen)"
  by (rule names_withinI) (auto simp add: Word_def Let_def split: if_splits)

lemma names_Regex: "names_within N (Regex r)"
  by (rule names_withinI) (auto simp add: Regex_def Let_def split: list.splits)

lemma names_StringEnd: "names_within N StringEnd"
  by (rule names_withinI) (auto simp add: StringEnd_def Let_def split: if_splits)

lemma names_LineEnd: "names_within N LineEnd"
  by (rule names_withinI) (auto simp add: LineEnd_def Let_def split: if_splits)

lemma names_And:
  assumes "\<And>e. e \<in> set es \<Longrightarrow> names_within N e"
  shows "names_within N (And es)"
proof (rule names_withinI)
  fix b s l l' toks named
  assume "And es b s l = Some (l', (toks, named))"
  then show "dom named \<subseteq> N"
    using assms
  proof (induction es arbitrary: l toks named)
    case Nil
    then show ?case by auto
  next
    case (Cons e es)
    from Cons.prems(1) obtain l1 t1 n1 t2 n2
      where e: "e b s l = Some (l1, (t1, n1))"
        and r: "And es b s l1 = Some (l', (t2, n2))"
        and n: "named = n1 ++ n2"
      by (auto split: option.splits)
    have "dom n1 \<subseteq> N" using e Cons.prems(2) [of e] by (auto dest: names_withinD)
    moreover have "dom n2 \<subseteq> N" using r Cons.prems(2) by (intro Cons.IH) auto
    ultimately show ?case using n by auto
  qed
qed

lemma names_MatchFirst:
  assumes "\<And>e. e \<in> set es \<Longrightarrow> names_within N e"
  shows "names_within N (MatchFirst es)"
proof (rule names_withinI)
  fix b s l l' toks named
  assume "MatchFirst es b s l = Some (l', (toks, named))"
  then have "MatchFirst_alternatives es b s (preParse b DEFAULT_WHITE_CHARS s l)
               = Some (l', (toks, named))"
    by (simp add: MatchFirst_def)
  then show "dom named \<subseteq> N"
    using assms
  proof (induction es)
    case Nil
    then show ?case by simp
  next
    case (Cons e es)
    then show ?case
      by (cases "e b s (preParse b DEFAULT_WHITE_CHARS s l)") (auto dest: names_withinD)
  qed
qed

lemma names_Optional: "names_within N e \<Longrightarrow> names_within N (Optional e)"
  by (rule names_withinI)
    (auto simp add: Optional_def Let_def split: option.splits dest: names_withinD)

lemma names_Combine: "names_within N e \<Longrightarrow> names_within N (Combine e)"
  by (rule names_withinI)
    (auto simp add: Combine_def Let_def split: option.splits dest: names_withinD)

lemma names_addCondition: "names_within N e \<Longrightarrow> names_within N (addCondition e fn)"
  unfolding names_within_def
  by (fastforce simp add: addCondition_def split: option.splits if_splits)

lemma names_setResultsName:
  "names_within N e \<Longrightarrow> name \<in> N \<Longrightarrow> names_within N (setResultsName e name)"
  unfolding names_within_def
  by (fastforce simp add: setResultsName_def split: option.splits if_splits)

lemma names_makeOptionalList:
  "names_within N e \<Longrightarrow> names_within N (makeOptionalList e n)"
proof (induction n)
  case 0
  then show ?case by (simp add: names_Optional)
next
  case (Suc n)
  then show ?case by (auto intro!: names_Optional names_And)
qed

lemmas names_intros =
  names_Literal names_Keyword names_Word names_Regex names_StringEnd names_LineEnd
  names_And names_MatchFirst names_Optional names_Combine names_addCondition
  names_setResultsName names_makeOptionalList

lemma names_IP_ADDRESS: "names_within N IP_ADDRESS"
  unfolding IP_ADDRESS_def ipv4_address_def ipv6_address_def full_ipv6_address_def
    mixed_ipv6_address_def short_ipv6_address_def ipv6_part_def
  by (auto intro!: names_intros)

lemma names_AUTHENTICATION_METHOD: "names_within N AUTHENTICATION_METHOD"
  unfolding AUTHENTICATION_METHOD_def by (auto intro!: names_intros)

lemma names_login_prefix:
  "names_within {''authentication_method'', ''username'', ''address'', ''port'', ''protocol''}
     (And (take 9 LOGIN_ELEMENTS))"
  unfolding LOGIN_ELEMENTS_def USERNAME_def PORT_def
  by (auto intro!: names_intros names_IP_ADDRESS names_AUTHENTICATION_METHOD)

section \<open>Matching an element at a known place\<close>

lemma drop_after: "drop loc s = w @ rest \<Longrightarrow> drop (loc + length w) s = rest"
  by (metis add.commute append_eq_conv_conj drop_drop)

lemma preParse_skip:
  assumes "drop loc s = w @ post" and "set w \<subseteq> set wt" and "post = [] \<or> hd post \<notin> set wt"
  shows "preParse True wt s loc = loc + length w"
proof -
  have "takeWhile (\<lambda>c. c \<in> set wt) (w @ post) = w"
  proof (cases post)
    case Nil
    then show ?thesis using assms(2) by (simp add: takeWhile_eq_all_conv subset_iff)
  next
    case (Cons c post')
    then have "c \<notin> set wt" using assms(3) by simp
    then show ?thesis using Cons assms(2) by (simp add: takeWhile_tail subset_iff)
  qed
  then show ?thesis by (simp add: preParse_def assms(1))
qed

lemma Literal_from:
  assumes "preParse b DEFAULT_WHITE_CHARS s loc = start" and "drop start s = m @ post"
  shows "Literal m b s loc = Some (start + length m, ([m], Map.empty))"
  using assms by (simp add: Literal_def startswith_def)

lemma Literal_match:
  assumes "drop loc s = w @ m @ post" and "set w \<subseteq> set DEFAULT_WHITE_CHARS"
    and "m \<noteq> []" and "hd m \<notin> set DEFAULT_WHITE_CHARS"
  shows "Literal m True s loc = Some (loc + length w + length m, ([m], Map.empty))"
proof (rule Literal_from)
  show "preParse True DEFAULT_WHITE_CHARS s loc = loc + length w"
    using assms by (intro preParse_skip [of _ _ _ "m @ post"]) simp_all
  show "drop (loc + length w) s = m @ post"
    using assms(1) by (rule drop_after)
qed

lemma Word_from:
  assumes "preParse b DEFAULT_WHITE_CHARS s loc = start" and "drop start s = x @ post"
    and "x \<noteq> []" and "set x \<subseteq> set chars" and "post = [] \<or> hd post \<notin> set chars"
    and "maxLen = 0 \<or> length x \<le> maxLen"
  shows "Word chars maxLen b s loc = Some (start + length x, ([x], Map.empty))"
proof -
  have run: "takeWhile (\<lambda>c. c \<in> set chars) (drop start s) = x"
  proof (cases post)
    case Nil
    then show ?thesis using assms(2,4) by (simp add: takeWhile_eq_all_conv subset_iff)
  next
    case (Cons c post')
    then have "c \<notin> set chars" using assms(5) by simp
    then show ?thesis using Cons assms(2,4) by (simp add: takeWhile_tail subset_iff)
  qed
  have nxt: "\<not> (start + length x < length s \<and> s ! (start + length x) \<in> set chars)"
  proof
    assume a: "start + length x < length s \<and> s ! (start + length x) \<in> set chars"
    then have "s ! (start + length x) = drop start s ! length x" by simp
    also have "\<dots> = post ! 0" by (simp add: assms(2) nth_append)
    finally have "post ! 0 \<in> set chars" using a by simp
    moreover have "post \<noteq> []" using a assms(2)
      by (metis add.right_neutral append_Nil2 length_append length_drop less_diff_conv less_irrefl add.commute)
    ultimately show False using assms(5) by (simp add: hd_conv_nth)
  qed
  have len: "0 < length x" using assms(3) by simp
  show ?thesis
    using assms(1,6) run nxt len
    by (auto simp add: Word_def Let_def min_def assms(2))
qed

lemma fingerprint_clause:
  assumes "drop loc s = '':'' @ w @ ''RSA '' @ h" and "set w \<subseteq> set DEFAULT_WHITE_CHARS"
    and "h \<noteq> []" and "set h \<subseteq> set ('':'' @ hexnums)"
  shows "Optional (And [Literal '':'', FINGER_PRINT]) True s loc
           = Some (length s, (['':'', ''RSA '' @ h], [''fingerprint'' \<mapsto> ''RSA '' @ h]))"
proof -
  define l1 where "l1 = loc + length '':''"
  define l2 where "l2 = l1 + length w"
  define l3 where "l3 = l2 + length ''RSA ''"
  have p0: "preParse True DEFAULT_WHITE_CHARS s loc = loc"
    using preParse_skip [of loc s "[]" "'':'' @ w @ ''RSA '' @ h" DEFAULT_WHITE_CHARS] assms(1)
    by (simp add: DEFAULT_WHITE_CHARS_def)
  have e1: "Literal '':'' True s loc = Some (l1, (['':''], Map.empty))"
    unfolding l1_def using assms(1) by (intro Literal_from [OF p0]) simp
  have d1: "drop l1 s = w @ ''RSA '' @ h"
    unfolding l1_def using assms(1) by (rule drop_after)
  have p1: "preParse True DEFAULT_WHITE_CHARS s l1 = l2"
    unfolding l2_def using d1 assms(2)
    by (intro preParse_skip [of _ _ _ "''RSA '' @ h"]) (simp_all add: DEFAULT_WHITE_CHARS_def)
  have d2: "drop l2 s = ''RSA '' @ h"
    unfolding l2_def using d1 by (rule drop_after)
  have e2: "Literal ''RSA '' False s l2 = Some (l3, ([''RSA ''], Map.empty))"
    unfolding l3_def using d2 by (intro Literal_from) (simp_all add: preParse_def)
  have d3: "drop l3 s = h @ []"
    unfolding l3_def using drop_after [OF d2] by simp
  have e3: "Word ('':'' @ hexnums) 0 False s l3 = Some (l3 + length h, ([h], Map.empty))"
    using assms(3,4) by (intro Word_from [OF _ d3]) (simp_all add: preParse_def)
  have "length (drop loc s) = length '':'' + length w + length ''RSA '' + length h"
    by (simp add: assms(1))
  then have len: "l3 + length h = length s"
    unfolding l3_def l2_def l1_def by simp
  have c: "Combine (And [Literal ''RSA '', Word ('':'' @ hexnums) 0]) True s l1
             = Some (length s, ([''RSA '' @ h], Map.empty))"
    using e2 e3 len by (simp add: Combine_def p1)
  show ?thesis
    using e1 c by (simp add: Optional_def p0 FINGER_PRINT_def setResultsName_def)
qed

section \<open>The optional fingerprint\<close>

lemma LOGIN_ELEMENTS_split:
  "LOGIN_ELEMENTS = take 9 LOGIN_ELEMENTS @ [Optional (And [Literal '':'', FINGER_PRINT]), StringEnd]"
  by (simp add: LOGIN_ELEMENTS_def)

lemma LOGIN_after_protocol:
  assumes "And (take 9 LOGIN_ELEMENTS) True s 0 = Some (loc, (toks, named))"
    and "Optional (And [Literal '':'', FINGER_PRINT]) True s loc = Some (length s, (toks', named'))"
  shows "And LOGIN_ELEMENTS True s 0 = Some (length s + 1, (toks @ toks', named ++ named'))"
proof -
  have "StringEnd True s (length s) = Some (length s + 1, ([], Map.empty))"
    by (simp add: StringEnd_def preParse_def Let_def)
  then have "And (take 9 LOGIN_ELEMENTS @ [Optional (And [Literal '':'', FINGER_PRINT]), StringEnd])
               True s 0 = Some (length s + 1, (toks @ toks', named ++ named'))"
    using assms by (simp add: And_append)
  then show ?thesis
    using LOGIN_ELEMENTS_split by simp
qed

lemma Literal_bound:
  assumes "Literal m b s loc = Some (l', r)" and "m \<noteq> []"
  shows "l' \<le> length s"
proof -
  let ?p = "preParse b DEFAULT_WHITE_CHARS s loc"
  from assms(1) have t: "take (length m) (drop ?p s) = m" and l: "l' = ?p + length m"
    by (auto simp add: Literal_def Let_def startswith_def split: if_splits)
  have "length (take (length m) (drop ?p s)) \<le> length s - ?p"
    by simp
  then have "length m \<le> length s - ?p" using t by simp
  moreover have "0 < length m" using assms(2) by simp
  ultimately show ?thesis using l by arith
qed

lemma login_protocol_bound:
  assumes "And (take 9 LOGIN_ELEMENTS) True s 0 = Some (loc, r)"
  shows "loc \<le> length s"
proof -
  have "take 9 LOGIN_ELEMENTS
          = take 8 LOGIN_ELEMENTS @ [setResultsName (Literal ''ssh2'') ''protocol'']"
    by (simp add: LOGIN_ELEMENTS_def)
  with assms obtain l1 r' where "Literal ''ssh2'' True s l1 = Some (loc, r')"
    by (auto simp add: And_append setResultsName_def split: option.splits)
  then show ?thesis by (rule Literal_bound) simp
qed

lemma no_fingerprint_clause:
  assumes "set (drop loc s) \<subseteq> set DEFAULT_WHITE_CHARS" and "loc \<le> length s"
  shows "Optional (And [Literal '':'', FINGER_PRINT]) True s loc = Some (length s, ([], Map.empty))"
proof -
  have "preParse True DEFAULT_WHITE_CHARS s loc = loc + length (drop loc s)"
    using assms(1) by (intro preParse_skip [of _ _ _ "[]"]) simp_all
  then have p: "preParse True DEFAULT_WHITE_CHARS s loc = length s"
    using assms(2) by simp
  have "Literal '':'' True s (length s) = None"
    by (simp add: Literal_def preParse_def startswith_def)
  then show ?thesis
    by (simp add: Optional_def p)
qed

text \<open>
  Claim C5.  Let the elements of the login grammar up to the \<^verbatim>\<open>ssh2\<close> literal match a
  body up to location \<open>loc\<close>.  If the body ends there (nothing but whitespace is left),
  the grammar matches with the tokens found so far and no fingerprint.  If the body
  continues with \<^verbatim>\<open>:\<close>, optional whitespace, \<^verbatim>\<open>RSA \<close> and a non-empty string of
  hexadecimal digits and colons, the grammar matches and the fingerprint is that text
  with its \<^verbatim>\<open>RSA \<close> prefix.
\<close>

theorem fingerprint_optional:
  "(And (take 9 LOGIN_ELEMENTS) True (expandtabs text) 0 = Some (loc, (toks, named))
      \<and> set (drop loc (expandtabs text)) \<subseteq> set DEFAULT_WHITE_CHARS \<longrightarrow>
      parseString LOGIN_GRAMMAR text = Some (toks, named) \<and> named ''fingerprint'' = None)
   \<and> (And (take 9 LOGIN_ELEMENTS) True (expandtabs text) 0 = Some (loc, (toks, named))
      \<and> drop loc (expandtabs text) = '':'' @ w @ ''RSA '' @ h
      \<and> set w \<subseteq> set DEFAULT_WHITE_CHARS \<and> h \<noteq> [] \<and> set h \<subseteq> set ('':'' @ hexnums) \<longrightarrow>
      parseString LOGIN_GRAMMAR text
        = Some (toks @ ['':'', ''RSA '' @ h], named(''fingerprint'' \<mapsto> ''RSA '' @ h)))"
proof (intro conjI impI)
  assume a: "And (take 9 LOGIN_ELEMENTS) True (expandtabs text) 0 = Some (loc, (toks, named))
      \<and> set (drop loc (expandtabs text)) \<subseteq> set DEFAULT_WHITE_CHARS"
  then have a1: "And (take 9 LOGIN_ELEMENTS) True (expandtabs text) 0 = Some (loc, (toks, named))"
    and a2: "set (drop loc (expandtabs text)) \<subseteq> set DEFAULT_WHITE_CHARS"
    by blast+
  have "loc \<le> length (expandtabs text)"
    using a1 by (rule login_protocol_bound)
  with a2 have "Optional (And [Literal '':'', FINGER_PRINT]) True (expandtabs text) loc
               = Some (length (expandtabs text), ([], Map.empty))"
    by (rule no_fingerprint_clause)
  with a1 have "And LOGIN_ELEMENTS True (expandtabs text) 0
                 = Some (length (expandtabs text) + 1, (toks @ [], named ++ Map.empty))"
    by (rule LOGIN_after_protocol)
  then show "parseString LOGIN_GRAMMAR text = Some (toks, named)"
    by (simp add: parseString_def LOGIN_GRAMMAR_def)
  have "dom named \<subseteq> {''authentication_method'', ''username'', ''address'', ''port'', ''protocol''}"
    using names_login_prefix a1 by (rule names_withinD)
  then show "named ''fingerprint'' = None"
    by (auto simp add: domIff subset_iff)
next
  assume a: "And (take 9 LOGIN_ELEMENTS) True (expandtabs text) 0 = Some (loc, (toks, named))
      \<and> drop loc (expandtabs text) = '':'' @ w @ ''RSA '' @ h
      \<and> set w \<subseteq> set DEFAULT_WHITE_CHARS \<and> h \<noteq> [] \<and> set h \<subseteq> set ('':'' @ hexnums)"
  then have a1: "And (take 9 LOGIN_ELEMENTS) True (expandtabs text) 0 = Some (loc, (toks, named))"
    and a2: "drop loc (expandtabs text) = '':'' @ w @ ''RSA '' @ h"
    and a3: "set w \<subseteq> set DEFAULT_WHITE_CHARS" and a4: "h \<noteq> []"
    and a5: "set h \<subseteq> set ('':'' @ hexnums)"
    by blast+
  have "Optional (And [Literal '':'', FINGER_PRINT]) True (expandtabs text) loc
           = Some (length (expandtabs text),
               (['':'', ''RSA '' @ h], [''fingerprint'' \<mapsto> ''RSA '' @ h]))"
    using a2 a3 a4 a5 by (rule fingerprint_clause)
  with a1 have "And LOGIN_ELEMENTS True (expandtabs text) 0
                 = Some (length (expandtabs text) + 1,
                     (toks @ ['':'', ''RSA '' @ h], named ++ [''fingerprint'' \<mapsto> ''RSA '' @ h]))"
    by (rule LOGIN_after_protocol)
  then show "parseString LOGIN_GRAMMAR text
        = Some (toks @ ['':'', ''RSA '' @ h], named(''fingerprint'' \<mapsto> ''RSA '' @ h))"
    by (simp add: parseString_def LOGIN_GRAMMAR_def)
qed

theorem fingerprint_optional_witness:
  "(\<exists>toks named.
      parseString LOGIN_GRAMMAR ''Accepted password for alice from 10.0.0.5 port 22 ssh2''
        = Some (toks, named) \<and> named ''fingerprint'' = None)
   \<and> (\<exists>toks named.
      parseString LOGIN_GRAMMAR
        ''Accepted publickey for bob from 10.0.0.5 port 2222 ssh2: RSA aa:bb:cc:dd''
        = Some (toks, named) \<and> named ''fingerprint'' = Some ''RSA aa:bb:cc:dd'')"
proof -
  let ?a = "''Accepted password for alice from 10.0.0.5 port 22 ssh2''"
  let ?b = "''Accepted publickey for bob from 10.0.0.5 port 2222 ssh2: RSA aa:bb:cc:dd''"
  have "map_option fst (And (take 9 LOGIN_ELEMENTS) True (expandtabs ?a) 0) = Some 54"
    by code_simp
  then obtain ta na
    where a: "And (take 9 LOGIN_ELEMENTS) True (expandtabs ?a) 0 = Some (54, (ta, na))"
    by (cases "And (take 9 LOGIN_ELEMENTS) True (expandtabs ?a) 0") auto
  have a': "set (drop 54 (expandtabs ?a)) \<subseteq> set DEFAULT_WHITE_CHARS"
    by code_simp
  have "map_option fst (And (take 9 LOGIN_ELEMENTS) True (expandtabs ?b) 0) = Some 55"
    by code_simp
  then obtain tb nb
    where b: "And (take 9 LOGIN_ELEMENTS) True (expandtabs ?b) 0 = Some (55, (tb, nb))"
    by (cases "And (take 9 LOGIN_ELEMENTS) True (expandtabs ?b) 0") auto
  have b': "drop 55 (expandtabs ?b) = '':'' @ '' '' @ ''RSA '' @ ''aa:bb:cc:dd''"
    by code_simp
  have b'': "set '' '' \<subseteq> set DEFAULT_WHITE_CHARS \<and> ''aa:bb:cc:dd'' \<noteq> []
      \<and> set ''aa:bb:cc:dd'' \<subseteq> set ('':'' @ hexnums)"
    by code_simp
  have "parseString LOGIN_GRAMMAR ?a = Some (ta, na) \<and> na ''fingerprint'' = None"
    using fingerprint_optional [of ?a 54 ta na] a a' by blast
  moreover have "parseString LOGIN_GRAMMAR ?b
        = Some (tb @ ['':'', ''RSA '' @ ''aa:bb:cc:dd''],
                nb(''fingerprint'' \<mapsto> ''RSA '' @ ''aa:bb:cc:dd''))"
    using fingerprint_optional [of ?b 55 tb nb "'' ''" "''aa:bb:cc:dd''"] b b' b'' by blast
  ultimately show ?thesis by simp
qed


section \<open>The authentication method\<close>

lemma expandtabs_from_prefix:
  "CHR 0x09 \<notin> set x \<Longrightarrow> \<exists>j'. expandtabs_from j (x @ y) = x @ expandtabs_from j' y"
  by (induction x arbitrary: j) auto

lemma expandtabs_prefix:
  "CHR 0x09 \<notin> set x \<Longrightarrow> \<exists>y'. expandtabs (x @ y) = x @ y'"
  unfolding expandtabs_def using expandtabs_from_prefix by blast

lemma Keyword_from:
  assumes "preParse b DEFAULT_WHITE_CHARS s loc = start"
  shows "Keyword m b s loc =
     (if startswith s m start
         \<and> (length s - length m \<le> start \<or> s ! (start + length m) \<notin> set DEFAULT_KEYWORD_CHARS)
         \<and> (start = 0 \<or> s ! (start - 1) \<notin> set DEFAULT_KEYWORD_CHARS)
      then Some (start + length m, ([m], Map.empty))
      else None)"
  using assms by (simp add: Keyword_def Let_def)

text \<open>A blank-delimited token that begins with a blank-free literal has it as a prefix.\<close>

lemma token_prefix:
  assumes "take (length m) (tok @ CHR '' '' # rest) = m" and "CHR '' '' \<notin> set m"
  shows "\<exists>tok'. tok = m @ tok'"
proof -
  have "length m \<le> length tok"
  proof (rule ccontr)
    assume "\<not> length m \<le> length tok"
    then have l: "length tok < length m" by simp
    then have "m ! length tok = take (length m) (tok @ CHR '' '' # rest) ! length tok"
      using assms(1) by simp
    also have "\<dots> = (tok @ CHR '' '' # rest) ! length tok"
      using l by (rule nth_take)
    also have "\<dots> = CHR '' ''" by (rule nth_append_length)
    finally have "CHR '' '' \<in> set m" using l by (metis nth_mem)
    with assms(2) show False by simp
  qed
  then have "take (length m) tok = m" using assms(1) by simp
  then have "tok = m @ drop (length m) tok" by (metis append_take_drop_id)
  then show ?thesis ..
qed

lemma Keyword_in_token:
  assumes k: "Keyword m True s loc = Some r"
    and d: "drop loc s = tok @ CHR '' '' # rest"
    and t: "tok \<noteq> []" "set tok \<inter> set DEFAULT_WHITE_CHARS = {}" "tok \<noteq> m"
    and m: "CHR '' '' \<notin> set m"
  shows "\<exists>tok'. tok = m @ tok' \<and> tok' \<noteq> [] \<and> hd tok' \<notin> set DEFAULT_KEYWORD_CHARS
           \<and> r = (loc + length m, ([m], Map.empty))"
proof -
  have "hd tok \<notin> set DEFAULT_WHITE_CHARS"
    using t(1,2) by (metis disjoint_iff hd_in_set)
  then have p: "preParse True DEFAULT_WHITE_CHARS s loc = loc"
    using preParse_skip [of loc s "[]" "tok @ CHR '' '' # rest" DEFAULT_WHITE_CHARS] d t(1)
    by simp
  from k have sw: "startswith s m loc"
    and nx: "length s - length m \<le> loc \<or> s ! (loc + length m) \<notin> set DEFAULT_KEYWORD_CHARS"
    and r: "r = (loc + length m, ([m], Map.empty))"
    unfolding Keyword_from [OF p] by (simp_all split: if_splits)
  from sw have "take (length m) (tok @ CHR '' '' # rest) = m"
    by (simp add: startswith_def d)
  then obtain tok' where tok': "tok = m @ tok'"
    using m token_prefix by blast
  then have ne: "tok' \<noteq> []" using t(3) by auto
  have "length (drop loc s) = length m + length tok' + 1 + length rest"
    by (simp add: d tok')
  then have len: "loc + length m + length tok' + 1 + length rest = length s"
    by simp
  moreover have "0 < length tok'" using ne by simp
  ultimately have "\<not> length s - length m \<le> loc" by arith
  with nx have "s ! (loc + length m) \<notin> set DEFAULT_KEYWORD_CHARS" by simp
  moreover have "s ! (loc + length m) = drop loc s ! length m"
    using len by simp
  moreover have "\<dots> = hd tok'"
    using ne by (simp add: d tok' nth_append hd_conv_nth)
  ultimately show ?thesis using tok' ne r by simp
qed


lemma for_after_token:
  assumes "drop l s = tok' @ CHR '' '' # rest" and "tok' \<noteq> []"
    and "hd tok' \<notin> set DEFAULT_KEYWORD_CHARS" and "hd tok' \<notin> set DEFAULT_WHITE_CHARS"
  shows "Literal ''for'' True s l = None"
proof -
  have p: "preParse True DEFAULT_WHITE_CHARS s l = l"
    using preParse_skip [of l s "[]" "tok' @ CHR '' '' # rest" DEFAULT_WHITE_CHARS] assms(1,2,4)
    by simp
  have "\<not> startswith s ''for'' l"
  proof
    assume "startswith s ''for'' l"
    then have "hd tok' = CHR ''f''"
      using assms(2) by (cases tok') (simp_all add: startswith_def assms(1))
    then show False
      using assms(3) by (simp add: DEFAULT_KEYWORD_CHARS_def alphanums_def alphas_def)
  qed
  then show ?thesis by (simp add: Literal_def p)
qed

lemma authentication_method_rejects:
  assumes d: "drop l0 s = CHR '' '' # tok @ CHR '' '' # rest"
    and t: "tok \<noteq> []" "set tok \<inter> set DEFAULT_WHITE_CHARS = {}"
      "tok \<notin> {''password'', ''publickey''}"
  shows "And (setResultsName AUTHENTICATION_METHOD name # Literal ''for'' # es) True s l0 = None"
proof -
  define l1 where "l1 = l0 + length [CHR '' '']"
  have ht: "hd tok \<notin> set DEFAULT_WHITE_CHARS"
    using t(1,2) by (metis disjoint_iff hd_in_set)
  have p: "preParse True DEFAULT_WHITE_CHARS s l0 = l1"
    unfolding l1_def using d ht t(1)
    by (intro preParse_skip [of _ _ _ "tok @ CHR '' '' # rest"])
      (simp_all add: DEFAULT_WHITE_CHARS_def)
  have d1: "drop l1 s = tok @ CHR '' '' # rest"
    unfolding l1_def using d by (intro drop_after) simp
  have kw: "Literal ''for'' True s l = None"
    if k: "Keyword m True s l1 = Some (l, r)" and m: "CHR '' '' \<notin> set m" "tok \<noteq> m" for m l r
  proof -
    from Keyword_in_token [OF k d1 t(1,2) m(2,1)]
    obtain tok' where tok': "tok = m @ tok'" "tok' \<noteq> []"
      "hd tok' \<notin> set DEFAULT_KEYWORD_CHARS" and l: "l = l1 + length m"
      by auto
    have "hd tok' \<in> set tok" using tok' by simp
    then have w: "hd tok' \<notin> set DEFAULT_WHITE_CHARS" using t(2) by blast
    have "drop l1 s = m @ tok' @ CHR '' '' # rest" using d1 tok'(1) by simp
    then have "drop l s = tok' @ CHR '' '' # rest"
      unfolding l by (rule drop_after)
    then show ?thesis using tok'(2,3) w by (rule for_after_token)
  qed
  show ?thesis
  proof (cases "Keyword ''password'' True s l1")
    case (Some a)
    obtain l r where a: "a = (l, r)" by (cases a)
    have "Literal ''for'' True s l = None"
      using Some t(3) unfolding a by (intro kw [of "''password''"]) simp_all
    then show ?thesis
      using Some a
      by (simp add: setResultsName_def AUTHENTICATION_METHOD_def MatchFirst_def p
          split: prod.splits)
  next
    case None
    show ?thesis
    proof (cases "Keyword ''publickey'' True s l1")
      case (Some a)
      obtain l r where a: "a = (l, r)" by (cases a)
      have "Literal ''for'' True s l = None"
        using Some t(3) unfolding a by (intro kw [of "''publickey''"]) simp_all
      then show ?thesis
        using None Some a
        by (simp add: setResultsName_def AUTHENTICATION_METHOD_def MatchFirst_def p
            split: prod.splits)
    next
      case None2: None
      then show ?thesis
        using None
        by (simp add: setResultsName_def AUTHENTICATION_METHOD_def MatchFirst_def p)
    qed
  qed
qed


lemma first_literal:
  assumes "m \<noteq> []" and "hd m \<notin> set DEFAULT_WHITE_CHARS"
  shows "Literal m True (m @ post) 0 = Some (length m, ([m], Map.empty))"
  using Literal_match [of 0 "m @ post" "[]" m post] assms by simp

lemma grammar_rejects_token:
  assumes t: "tok \<noteq> []" "set tok \<inter> set DEFAULT_WHITE_CHARS = {}"
      "tok \<notin> {''password'', ''publickey''}"
    and m: "m \<noteq> []" "hd m \<notin> set DEFAULT_WHITE_CHARS" "CHR 0x09 \<notin> set m"
  shows "parseString
           (And (Literal m # setResultsName AUTHENTICATION_METHOD name # Literal ''for'' # es))
           (m @ CHR '' '' # tok @ CHR '' '' # rest) = None"
proof -
  have "CHR 0x09 \<notin> set (m @ CHR '' '' # tok @ [CHR '' ''])"
    using t(2) m(3) by (auto simp add: DEFAULT_WHITE_CHARS_def)
  then obtain rest'
    where "expandtabs ((m @ CHR '' '' # tok @ [CHR '' '']) @ rest)
             = (m @ CHR '' '' # tok @ [CHR '' '']) @ rest'"
    using expandtabs_prefix by blast
  then have e: "expandtabs (m @ CHR '' '' # tok @ CHR '' '' # rest)
                  = m @ CHR '' '' # tok @ CHR '' '' # rest'"
    by simp
  let ?s = "m @ CHR '' '' # tok @ CHR '' '' # rest'"
  have l: "Literal m True ?s 0 = Some (length m, ([m], Map.empty))"
    using m(1,2) by (rule first_literal)
  have "drop (length m) ?s = CHR '' '' # tok @ CHR '' '' # rest'"
    by simp
  then have "And (setResultsName AUTHENTICATION_METHOD name # Literal ''for'' # es) True ?s (length m)
          = None"
    using t by (rule authentication_method_rejects)
  then have "And (Literal m # setResultsName AUTHENTICATION_METHOD name # Literal ''for'' # es)
               True ?s 0 = None"
    using l by simp
  then show ?thesis
    unfolding parseString_def e by simp
qed

lemma Keyword_delimited:
  assumes d: "drop l0 s = CHR '' '' # m @ CHR '' '' # rest"
    and m: "m \<noteq> []" "hd m \<notin> set DEFAULT_WHITE_CHARS"
  shows "preParse True DEFAULT_WHITE_CHARS s l0 = l0 + 1"
    and "Keyword m True s (l0 + 1) = Some (l0 + 1 + length m, ([m], Map.empty))"
proof -
  define l1 where "l1 = l0 + length [CHR '' '']"
  have l1: "l1 = l0 + 1" by (simp add: l1_def)
  have p0: "preParse True DEFAULT_WHITE_CHARS s l0 = l1"
    unfolding l1_def using d m
    by (intro preParse_skip [of _ _ _ "m @ CHR '' '' # rest"])
      (simp_all add: DEFAULT_WHITE_CHARS_def)
  then show "preParse True DEFAULT_WHITE_CHARS s l0 = l0 + 1" by (simp add: l1)
  have d1: "drop l1 s = m @ CHR '' '' # rest"
    unfolding l1_def using d by (intro drop_after) simp
  have p1: "preParse True DEFAULT_WHITE_CHARS s l1 = l1"
    using preParse_skip [of l1 s "[]" "m @ CHR '' '' # rest" DEFAULT_WHITE_CHARS] d1 m
    by simp
  have sw: "startswith s m l1"
    by (simp add: startswith_def d1)
  have "length (drop l0 s) = 1 + length m + 1 + length rest"
    by (simp add: d)
  then have len: "l0 + 1 + length m + 1 + length rest = length s"
    by simp
  have "s ! (l1 + length m) = drop l1 s ! length m"
    using len l1 by simp
  also have "\<dots> = CHR '' ''"
    unfolding d1 by (rule nth_append_length)
  finally have nx: "s ! (l1 + length m) \<notin> set DEFAULT_KEYWORD_CHARS"
    by (simp add: DEFAULT_KEYWORD_CHARS_def alphanums_def alphas_def nums_def)
  have "s ! l0 = drop l0 s ! 0"
    using len by simp
  also have "\<dots> = CHR '' ''" by (simp add: d)
  finally have "s ! (l1 - 1) \<notin> set DEFAULT_KEYWORD_CHARS"
    by (simp add: l1 DEFAULT_KEYWORD_CHARS_def alphanums_def alphas_def nums_def)
  then have "Keyword m True s l1 = Some (l1 + length m, ([m], Map.empty))"
    unfolding Keyword_from [OF p1] using sw nx by simp
  then show "Keyword m True s (l0 + 1) = Some (l0 + 1 + length m, ([m], Map.empty))"
    by (simp add: l1)
qed

lemma authentication_method_accepts:
  assumes d: "drop l0 s = CHR '' '' # tok @ CHR '' '' # rest"
    and t: "tok \<in> {''password'', ''publickey''}"
  shows "setResultsName AUTHENTICATION_METHOD ''authentication_method'' True s l0
         = Some (l0 + 1 + length tok, ([tok], [''authentication_method'' \<mapsto> tok]))"
proof -
  have m: "tok \<noteq> []" "hd tok \<notin> set DEFAULT_WHITE_CHARS"
    using t by (auto simp add: DEFAULT_WHITE_CHARS_def)
  note k = Keyword_delimited [OF d m]
  have "tok = ''publickey'' \<Longrightarrow> Keyword ''password'' True s (l0 + 1) = None"
  proof -
    assume pk: "tok = ''publickey''"
    have "drop (l0 + length [CHR '' '']) s = tok @ CHR '' '' # rest"
      using d by (intro drop_after) simp
    then have d1: "drop (l0 + 1) s = tok @ CHR '' '' # rest" by simp
    have "preParse True DEFAULT_WHITE_CHARS s (l0 + 1) = l0 + 1"
      using preParse_skip [of "l0 + 1" s "[]" "tok @ CHR '' '' # rest" DEFAULT_WHITE_CHARS] d1 m
      by simp
    moreover have "\<not> startswith s ''password'' (l0 + 1)"
      unfolding startswith_def d1 pk by simp
    ultimately show ?thesis
      by (simp add: Keyword_def)
  qed
  then have "MatchFirst_alternatives [Keyword ''password'', Keyword ''publickey''] True s (l0 + 1)
          = Some (l0 + 1 + length tok, ([tok], Map.empty))"
    using t k(2) by auto
  then show ?thesis
    using k(1) by (simp add: setResultsName_def AUTHENTICATION_METHOD_def MatchFirst_def)
qed


lemma keyword_then_method:
  assumes m: "m \<noteq> []" "hd m \<notin> set DEFAULT_WHITE_CHARS" "CHR 0x09 \<notin> set m"
    and t: "tok \<in> {''password'', ''publickey''}"
  shows "And [Literal m, setResultsName AUTHENTICATION_METHOD ''authentication_method''] True
           (expandtabs (m @ CHR '' '' # tok @ CHR '' '' # rest)) 0
         = Some (length m + 1 + length tok, ([m, tok], [''authentication_method'' \<mapsto> tok]))"
proof -
  have "CHR 0x09 \<notin> set (m @ CHR '' '' # tok @ [CHR '' ''])"
    using t m(3) by auto
  then obtain rest'
    where "expandtabs ((m @ CHR '' '' # tok @ [CHR '' '']) @ rest)
             = (m @ CHR '' '' # tok @ [CHR '' '']) @ rest'"
    using expandtabs_prefix by blast
  then have e: "expandtabs (m @ CHR '' '' # tok @ CHR '' '' # rest)
                  = m @ CHR '' '' # tok @ CHR '' '' # rest'"
    by simp
  let ?s = "m @ CHR '' '' # tok @ CHR '' '' # rest'"
  have l: "Literal m True ?s 0 = Some (length m, ([m], Map.empty))"
    using m(1,2) by (rule first_literal)
  have "drop (length m) ?s = CHR '' '' # tok @ CHR '' '' # rest'"
    by simp
  then have "setResultsName AUTHENTICATION_METHOD ''authentication_method'' True ?s (length m)
         = Some (length m + 1 + length tok, ([tok], [''authentication_method'' \<mapsto> tok]))"
    using t by (rule authentication_method_accepts)
  then show ?thesis
    unfolding e using l by simp
qed

text \<open>
  Claim C6.  In the position after \<^verbatim>\<open>Accepted\<close> (login) or \<^verbatim>\<open>Failed\<close> (failed
  connection), the blank-delimited tokens \<^verbatim>\<open>password\<close> and \<^verbatim>\<open>publickey\<close> are accepted
  and reported as the authentication method, whatever follows; with any other
  non-empty whitespace-free token in that position, such as \<^verbatim>\<open>passwords\<close>, the grammar
  does not match, whatever follows.
\<close>

theorem authentication_method_exact:
  "(tok \<in> {''password'', ''publickey''} \<longrightarrow>
      And (take 2 LOGIN_ELEMENTS) True (expandtabs (''Accepted '' @ tok @ '' '' @ rest)) 0
        = Some (9 + length tok, ([''Accepted'', tok], [''authentication_method'' \<mapsto> tok]))
      \<and> And (take 2 FAILED_CONNECTION_ELEMENTS) True
            (expandtabs (''Failed '' @ tok @ '' '' @ rest)) 0
        = Some (7 + length tok, ([''Failed'', tok], [''authentication_method'' \<mapsto> tok])))
   \<and> (tok \<noteq> [] \<and> set tok \<inter> set DEFAULT_WHITE_CHARS = {}
        \<and> tok \<notin> {''password'', ''publickey''} \<longrightarrow>
      parseString LOGIN_GRAMMAR (''Accepted '' @ tok @ '' '' @ rest) = None
      \<and> parseString FAILED_CONNECTION_GRAMMAR (''Failed '' @ tok @ '' '' @ rest) = None)"
proof (intro conjI impI)
  assume t: "tok \<in> {''password'', ''publickey''}"
  show "And (take 2 LOGIN_ELEMENTS) True (expandtabs (''Accepted '' @ tok @ '' '' @ rest)) 0
        = Some (9 + length tok, ([''Accepted'', tok], [''authentication_method'' \<mapsto> tok]))"
    using keyword_then_method [of "''Accepted''" tok rest] t
    by (simp add: LOGIN_ELEMENTS_def DEFAULT_WHITE_CHARS_def)
  show "And (take 2 FAILED_CONNECTION_ELEMENTS) True
            (expandtabs (''Failed '' @ tok @ '' '' @ rest)) 0
        = Some (7 + length tok, ([''Failed'', tok], [''authentication_method'' \<mapsto> tok]))"
    using keyword_then_method [of "''Failed''" tok rest] t
    by (simp add: FAILED_CONNECTION_ELEMENTS_def DEFAULT_WHITE_CHARS_def)
next
  assume a: "tok \<noteq> [] \<and> set tok \<inter> set DEFAULT_WHITE_CHARS = {}
        \<and> tok \<notin> {''password'', ''publickey''}"
  then have t: "tok \<noteq> []" "set tok \<inter> set DEFAULT_WHITE_CHARS = {}"
      "tok \<notin> {''password'', ''publickey''}"
    by blast+
  show "parseString LOGIN_GRAMMAR (''Accepted '' @ tok @ '' '' @ rest) = None"
    using grammar_rejects_token [OF t, of "''Accepted''" "''authentication_method''" _ rest]
    by (simp add: LOGIN_GRAMMAR_def LOGIN_ELEMENTS_def DEFAULT_WHITE_CHARS_def)
  show "parseString FAILED_CONNECTION_GRAMMAR (''Failed '' @ tok @ '' '' @ rest) = None"
    using grammar_rejects_token [OF t, of "''Failed''" "''authentication_method''" _ rest]
    by (simp add: FAILED_CONNECTION_GRAMMAR_def FAILED_CONNECTION_ELEMENTS_def
        DEFAULT_WHITE_CHARS_def)
qed

theorem authentication_method_exact_witness:
  "And (take 2 LOGIN_ELEMENTS) True
     (expandtabs (''Accepted '' @ ''publickey'' @ '' '' @ ''for bob from 10.0.0.5 port 2222 ssh2'')) 0
     = Some (18, ([''Accepted'', ''publickey''], [''authentication_method'' \<mapsto> ''publickey'']))
   \<and> parseString LOGIN_GRAMMAR
       (''Accepted '' @ ''passwords'' @ '' '' @ ''for alice from 10.0.0.5 port 22 ssh2'') = None
   \<and> parseString FAILED_CONNECTION_GRAMMAR
       (''Failed '' @ ''keyboard-interactive'' @ '' '' @ ''for root from 192.168.1.1 port 22'')
       = None
   \<and> parseString LOGIN_GRAMMAR ''Accepted publickey for bob from 10.0.0.5 port 2222 ssh2'' \<noteq> None"
proof -
  have p: "''publickey'' \<in> {''password'', ''publickey''}" by simp
  have q: "''passwords'' \<noteq> [] \<and> set ''passwords'' \<inter> set DEFAULT_WHITE_CHARS = {}
        \<and> ''passwords'' \<notin> {''password'', ''publickey''}"
    by (simp add: DEFAULT_WHITE_CHARS_def)
  have r: "''keyboard-interactive'' \<noteq> []
        \<and> set ''keyboard-interactive'' \<inter> set DEFAULT_WHITE_CHARS = {}
        \<and> ''keyboard-interactive'' \<notin> {''password'', ''publickey''}"
    by (simp add: DEFAULT_WHITE_CHARS_def)
  have e: "parseString LOGIN_GRAMMAR ''Accepted publickey for bob from 10.0.0.5 port 2222 ssh2''
             \<noteq> None"
    by code_simp
  show ?thesis
    using authentication_method_exact [of "''publickey''" "''for bob from 10.0.0.5 port 2222 ssh2''"]
      authentication_method_exact [of "''passwords''" "''for alice from 10.0.0.5 port 22 ssh2''"]
      authentication_method_exact [of "''keyboard-interactive''" "''for root from 192.168.1.1 port 22''"]
      p q r e
    by simp
qed


section \<open>The opened connection keyword\<close>

lemma expandtabs_from_append:
  "\<exists>j'. expandtabs_from j (x @ y) = expandtabs_from j x @ expandtabs_from j' y"
  by (induction x arbitrary: j) auto

lemma expandtabs_from_white:
  "set w \<subseteq> set DEFAULT_WHITE_CHARS \<Longrightarrow> set (expandtabs_from j w) \<subseteq> set DEFAULT_WHITE_CHARS"
  by (induction w arbitrary: j) (auto simp add: DEFAULT_WHITE_CHARS_def)

lemma ipv4_example:
  assumes "post = [] \<or> hd post \<notin> set ''0123456789.''"
  shows "\<exists>rs. re_seq re_octet (re_range 3 3 (re_seq (re_set ''.'') re_octet))
           (''10.0.0.5'' @ post) = post # rs"
proof (cases post)
  case Nil
  then show ?thesis
    by (simp add: re_seq_def re_alt_def re_octet_def nums_def numeral_3_eq_3 numeral_2_eq_2)
next
  case (Cons c p)
  then have "c \<notin> set ''0123456789.''" using assms by simp
  then show ?thesis
    using Cons
    by (simp add: re_seq_def re_alt_def re_octet_def nums_def numeral_3_eq_3 numeral_2_eq_2)
qed


lemma expandtabs_spaced:
  assumes w: "set w1 \<subseteq> set DEFAULT_WHITE_CHARS" "set w2 \<subseteq> set DEFAULT_WHITE_CHARS"
      "set w3 \<subseteq> set DEFAULT_WHITE_CHARS"
    and n: "CHR 0x09 \<notin> set K" "CHR 0x09 \<notin> set A" "CHR 0x09 \<notin> set P" "CHR 0x09 \<notin> set D"
  shows "\<exists>v1 v2 v3. expandtabs (K @ w1 @ A @ w2 @ P @ w3 @ D) = K @ v1 @ A @ v2 @ P @ v3 @ D
           \<and> set v1 \<subseteq> set DEFAULT_WHITE_CHARS \<and> set v2 \<subseteq> set DEFAULT_WHITE_CHARS
           \<and> set v3 \<subseteq> set DEFAULT_WHITE_CHARS"
proof -
  obtain j1 where 1: "expandtabs_from 0 (K @ w1 @ A @ w2 @ P @ w3 @ D)
      = K @ expandtabs_from j1 (w1 @ A @ w2 @ P @ w3 @ D)"
    using expandtabs_from_prefix [OF n(1)] by blast
  obtain j2 where 2: "expandtabs_from j1 (w1 @ A @ w2 @ P @ w3 @ D)
      = expandtabs_from j1 w1 @ expandtabs_from j2 (A @ w2 @ P @ w3 @ D)"
    using expandtabs_from_append by blast
  obtain j3 where 3: "expandtabs_from j2 (A @ w2 @ P @ w3 @ D)
      = A @ expandtabs_from j3 (w2 @ P @ w3 @ D)"
    using expandtabs_from_prefix [OF n(2)] by blast
  obtain j4 where 4: "expandtabs_from j3 (w2 @ P @ w3 @ D)
      = expandtabs_from j3 w2 @ expandtabs_from j4 (P @ w3 @ D)"
    using expandtabs_from_append by blast
  obtain j5 where 5: "expandtabs_from j4 (P @ w3 @ D) = P @ expandtabs_from j5 (w3 @ D)"
    using expandtabs_from_prefix [OF n(3)] by blast
  obtain j6 where 6: "expandtabs_from j5 (w3 @ D) = expandtabs_from j5 w3 @ expandtabs_from j6 D"
    using expandtabs_from_append by blast
  have 7: "expandtabs_from j6 D = D"
    using n(4) by (rule expandtabs_from_no_tab)
  have "expandtabs (K @ w1 @ A @ w2 @ P @ w3 @ D)
      = K @ expandtabs_from j1 w1 @ A @ expandtabs_from j3 w2 @ P @ expandtabs_from j5 w3 @ D"
    unfolding expandtabs_def 1 2 3 4 5 6 7 by simp
  then show ?thesis
    using w expandtabs_from_white by blast
qed

lemma opened_connection_spaced:
  assumes w: "set w1 \<subseteq> set DEFAULT_WHITE_CHARS" "set w2 \<subseteq> set DEFAULT_WHITE_CHARS"
      "set w3 \<subseteq> set DEFAULT_WHITE_CHARS"
    and s: "s = ''Connection from'' @ w1 @ ''10.0.0.5'' @ w2 @ ''port'' @ w3 @ ''22''"
  shows "And OPENED_CONNECTION_ELEMENTS True s 0
           = Some (length s + 1,
               ([''Connection from'', ''10.0.0.5'', ''port'', ''22''],
                [''address'' \<mapsto> ''10.0.0.5'', ''port'' \<mapsto> ''22'']))"
proof -
  define l1 where "l1 = length ''Connection from''"
  define l2 where "l2 = l1 + length w1"
  define l3 where "l3 = l2 + length ''10.0.0.5''"
  define l4 where "l4 = l3 + length w2 + length ''port''"
  define l5 where "l5 = l4 + length w3"
  define l6 where "l6 = l5 + length ''22''"
  define post2 where "post2 = w2 @ ''port'' @ w3 @ ''22''"
  have e1: "Literal ''Connection from'' True s 0 = Some (l1, ([''Connection from''], Map.empty))"
    unfolding s l1_def by (rule first_literal) (simp_all add: DEFAULT_WHITE_CHARS_def)
  have d1: "drop l1 s = w1 @ ''10.0.0.5'' @ post2"
    by (simp add: s l1_def post2_def)
  have p1: "preParse True DEFAULT_WHITE_CHARS s l1 = l2"
    unfolding l2_def using d1 w(1)
    by (rule preParse_skip) (simp add: DEFAULT_WHITE_CHARS_def)
  have d2: "drop l2 s = ''10.0.0.5'' @ post2"
    unfolding l2_def using d1 by (rule drop_after)
  have p2: "preParse True DEFAULT_WHITE_CHARS s l2 = l2"
    using preParse_skip [of l2 s "[]" "''10.0.0.5'' @ post2" DEFAULT_WHITE_CHARS] d2
    by (simp add: DEFAULT_WHITE_CHARS_def)
  have "post2 = [] \<or> hd post2 \<notin> set ''0123456789.''"
  proof (cases w2)
    case Nil
    then show ?thesis by (simp add: post2_def)
  next
    case (Cons c w)
    then have "c \<in> set DEFAULT_WHITE_CHARS" using w(2) by simp
    then show ?thesis using Cons by (auto simp add: post2_def DEFAULT_WHITE_CHARS_def)
  qed
  then obtain rs where re: "re_seq re_octet (re_range 3 3 (re_seq (re_set ''.'') re_octet))
           (''10.0.0.5'' @ post2) = post2 # rs"
    using ipv4_example by blast
  have "length (drop l2 s) = length ''10.0.0.5'' + length post2"
    unfolding d2 by simp
  then have n: "length s - (l2 + length post2) = 8"
    by simp
  have e2: "ipv4_address True s l2 = Some (l3, ([''10.0.0.5''], Map.empty))"
    unfolding ipv4_address_def Regex_def Let_def p2 d2 [symmetric] re [unfolded d2 [symmetric]]
    by (simp add: n l3_def d2)
  have e2': "setResultsName IP_ADDRESS ''address'' True s l1
          = Some (l3, ([''10.0.0.5''], [''address'' \<mapsto> ''10.0.0.5'']))"
    using e2 by (simp add: setResultsName_def IP_ADDRESS_def MatchFirst_def p1)
  have d3: "drop l3 s = w2 @ ''port'' @ w3 @ ''22''"
    unfolding l3_def post2_def [symmetric] using d2 by (rule drop_after)
  have e3: "Literal ''port'' True s l3 = Some (l4, ([''port''], Map.empty))"
    unfolding l4_def using d3 w(2) by (rule Literal_match) (simp_all add: DEFAULT_WHITE_CHARS_def)
  have "drop (l3 + length w2) s = ''port'' @ w3 @ ''22''"
    using d3 by (rule drop_after)
  then have "drop (l3 + length w2 + length ''port'') s = w3 @ ''22''"
    by (rule drop_after)
  then have d4: "drop l4 s = w3 @ ''22'' @ []"
    by (simp add: l4_def)
  have p4: "preParse True DEFAULT_WHITE_CHARS s l4 = l5"
    unfolding l5_def using d4 w(3)
    by (rule preParse_skip) (simp add: DEFAULT_WHITE_CHARS_def)
  have d5: "drop l5 s = ''22'' @ []"
    unfolding l5_def using d4 by (rule drop_after)
  have e4: "Word nums 5 True s l4 = Some (l6, ([''22''], Map.empty))"
    unfolding l6_def using p4 d5 by (rule Word_from) (simp_all add: nums_def)
  have e4': "PORT True s l4 = Some (l6, ([''22''], [''port'' \<mapsto> ''22'']))"
    using e4 by (simp add: PORT_def setResultsName_def)
  have len: "l6 = length s"
    by (simp add: l6_def l5_def l4_def l3_def l2_def l1_def s)
  have e5: "LineEnd True s l6 = Some (length s + 1, ([], Map.empty))"
    by (simp add: LineEnd_def preParse_def len)
  show ?thesis
    using e1 e2' e3 e4' e5 by (simp add: OPENED_CONNECTION_ELEMENTS_def)
qed


lemma Literal_mismatch:
  assumes "\<not> startswith s m 0" and "s \<noteq> []" and "hd s \<notin> set DEFAULT_WHITE_CHARS"
  shows "And (Literal m # es) True s 0 = None"
proof -
  have "preParse True DEFAULT_WHITE_CHARS s 0 = 0"
    using preParse_skip [of 0 s "[]" s DEFAULT_WHITE_CHARS] assms(2,3) by simp
  then show ?thesis using assms(1) by (simp add: Literal_def)
qed


lemma replicate_6: "replicate 6 c = [c, c, c, c, c, c]"
  by (simp add: eval_nat_numeral)

text \<open>
  Claim C10.  A body that begins \<^verbatim>\<open>Connection  from\<close> with two spaces, or with a tab
  between the two words, does not match the opened connection grammar, whatever follows:
  the leading keyword is the single literal \<^verbatim>\<open>Connection from\<close>.  Between the other
  elements any whitespace is skipped: with arbitrary whitespace before the address,
  before \<^verbatim>\<open>port\<close> and before the port number the grammar matches and yields the same
  address and port.
\<close>

theorem connection_from_one_space:
  "parseString OPENED_CONNECTION_GRAMMAR (''Connection  from'' @ rest) = None
   \<and> parseString OPENED_CONNECTION_GRAMMAR (''Connection'' @ [CHR 0x09] @ ''from'' @ rest) = None
   \<and> (set w1 \<subseteq> set DEFAULT_WHITE_CHARS \<and> set w2 \<subseteq> set DEFAULT_WHITE_CHARS
        \<and> set w3 \<subseteq> set DEFAULT_WHITE_CHARS \<longrightarrow>
      parseString OPENED_CONNECTION_GRAMMAR
        (''Connection from'' @ w1 @ ''10.0.0.5'' @ w2 @ ''port'' @ w3 @ ''22'')
      = Some ([''Connection from'', ''10.0.0.5'', ''port'', ''22''],
              [''address'' \<mapsto> ''10.0.0.5'', ''port'' \<mapsto> ''22'']))"
proof (intro conjI impI)
  obtain rest' where e: "expandtabs (''Connection  from'' @ rest) = ''Connection  from'' @ rest'"
    using expandtabs_prefix [of "''Connection  from''" rest] by auto
  have "And OPENED_CONNECTION_ELEMENTS True (''Connection  from'' @ rest') 0 = None"
    unfolding OPENED_CONNECTION_ELEMENTS_def
    by (rule Literal_mismatch) (simp_all add: startswith_def DEFAULT_WHITE_CHARS_def)
  then show "parseString OPENED_CONNECTION_GRAMMAR (''Connection  from'' @ rest) = None"
    by (simp only: parseString_def OPENED_CONNECTION_GRAMMAR_def e option.map)
next
  have "\<exists>rest'. expandtabs (''Connection'' @ [CHR 0x09] @ ''from'' @ rest)
          = ''Connection      from'' @ rest'"
    by (simp add: expandtabs_def replicate_6)
  then obtain rest' where e: "expandtabs (''Connection'' @ [CHR 0x09] @ ''from'' @ rest)
          = ''Connection      from'' @ rest'"
    by blast
  have "And OPENED_CONNECTION_ELEMENTS True (''Connection      from'' @ rest') 0 = None"
    unfolding OPENED_CONNECTION_ELEMENTS_def
    by (rule Literal_mismatch) (simp_all add: startswith_def DEFAULT_WHITE_CHARS_def)
  then show "parseString OPENED_CONNECTION_GRAMMAR (''Connection'' @ [CHR 0x09] @ ''from'' @ rest)
               = None"
    by (simp only: parseString_def OPENED_CONNECTION_GRAMMAR_def e option.map)
next
  assume a: "set w1 \<subseteq> set DEFAULT_WHITE_CHARS \<and> set w2 \<subseteq> set DEFAULT_WHITE_CHARS
        \<and> set w3 \<subseteq> set DEFAULT_WHITE_CHARS"
  then have w: "set w1 \<subseteq> set DEFAULT_WHITE_CHARS" "set w2 \<subseteq> set DEFAULT_WHITE_CHARS"
      "set w3 \<subseteq> set DEFAULT_WHITE_CHARS"
    by blast+
  from expandtabs_spaced [OF w, of "''Connection from''" "''10.0.0.5''" "''port''" "''22''"]
  obtain v1 v2 v3
    where e: "expandtabs (''Connection from'' @ w1 @ ''10.0.0.5'' @ w2 @ ''port'' @ w3 @ ''22'')
                = ''Connection from'' @ v1 @ ''10.0.0.5'' @ v2 @ ''port'' @ v3 @ ''22''"
      and v: "set v1 \<subseteq> set DEFAULT_WHITE_CHARS" "set v2 \<subseteq> set DEFAULT_WHITE_CHARS"
        "set v3 \<subseteq> set DEFAULT_WHITE_CHARS"
    by auto
  show "parseString OPENED_CONNECTION_GRAMMAR
        (''Connection from'' @ w1 @ ''10.0.0.5'' @ w2 @ ''port'' @ w3 @ ''22'')
      = Some ([''Connection from'', ''10.0.0.5'', ''port'', ''22''],
              [''address'' \<mapsto> ''10.0.0.5'', ''port'' \<mapsto> ''22''])"
    unfolding parseString_def OPENED_CONNECTION_GRAMMAR_def e
    using opened_connection_spaced [OF v refl] by simp
qed



theorem connection_from_one_space_witness:
  "parseString OPENED_CONNECTION_GRAMMAR (''Connection  from'' @ '' 10.0.0.5 port 22'') = None
   \<and> parseString OPENED_CONNECTION_GRAMMAR
       (''Connection from'' @ ''  '' @ ''10.0.0.5'' @ [CHR 0x09] @ ''port'' @ [CHR 0x0A, CHR '' '']
          @ ''22'')
     = Some ([''Connection from'', ''10.0.0.5'', ''port'', ''22''],
             [''address'' \<mapsto> ''10.0.0.5'', ''port'' \<mapsto> ''22''])"
proof -
  have w: "set ''  '' \<subseteq> set DEFAULT_WHITE_CHARS \<and> set [CHR 0x09] \<subseteq> set DEFAULT_WHITE_CHARS
        \<and> set [CHR 0x0A, CHR '' ''] \<subseteq> set DEFAULT_WHITE_CHARS"
    by (simp add: DEFAULT_WHITE_CHARS_def)
  note t = connection_from_one_space [of "'' 10.0.0.5 port 22''" "''  ''" "[CHR 0x09]"
      "[CHR 0x0A, CHR '' '']"]
  from t have 1: "parseString OPENED_CONNECTION_GRAMMAR
      (''Connection  from'' @ '' 10.0.0.5 port 22'') = None"
    by (rule conjunct1)
  from t [THEN conjunct2, THEN conjunct2] w
  have 2: "parseString OPENED_CONNECTION_GRAMMAR
       (''Connection from'' @ ''  '' @ ''10.0.0.5'' @ [CHR 0x09] @ ''port'' @ [CHR 0x0A, CHR '' '']
          @ ''22'')
     = Some ([''Connection from'', ''10.0.0.5'', ''port'', ''22''],
             [''address'' \<mapsto> ''10.0.0.5'', ''port'' \<mapsto> ''22''])"
    by (rule mp)
  from 1 2 show ?thesis by (rule conjI)
qed


section \<open>Records of opened connections\<close>

lemma names_OPENED_CONNECTION_GRAMMAR:
  "names_within {''address'', ''port''} OPENED_CONNECTION_GRAMMAR"
  unfolding OPENED_CONNECTION_GRAMMAR_def OPENED_CONNECTION_ELEMENTS_def PORT_def
  by (auto intro!: names_intros names_IP_ADDRESS)

text \<open>
  Claim C1, as the code has it.  \<^verbatim>\<open>_ParseMessage\<close> copies the same twelve attributes for
  every key, so the event data built for \<^verbatim>\<open>opened_connection\<close> carries in \<open>username\<close>,
  \<open>authentication_method\<close> and \<open>protocol\<close> whatever the token mapping holds under those
  keys: each is \<open>None\<close> exactly when the mapping has no such entry.  The tokens that the
  opened connection grammar itself yields have no entry under these three keys.
\<close>

theorem opened_connection_copies_tokens:
  "(\<exists>event_data.
     ParseMessage parser_mediator ''opened_connection'' date_time tokens
       = Inr (parser_mediator @ [event_data])
     \<and> data_type event_data = ''syslog:ssh:opened_connection''
     \<and> username event_data = tokens ''username''
     \<and> authentication_method event_data = tokens ''authentication_method''
     \<and> protocol event_data = tokens ''protocol'')
   \<and> (parseString OPENED_CONNECTION_GRAMMAR text = Some matched \<longrightarrow>
        asDict matched ''username'' = None
        \<and> asDict matched ''authentication_method'' = None
        \<and> asDict matched ''protocol'' = None)"
proof (intro conjI impI)
  show "\<exists>event_data.
     ParseMessage parser_mediator ''opened_connection'' date_time tokens
       = Inr (parser_mediator @ [event_data])
     \<and> data_type event_data = ''syslog:ssh:opened_connection''
     \<and> username event_data = tokens ''username''
     \<and> authentication_method event_data = tokens ''authentication_method''
     \<and> protocol event_data = tokens ''protocol''"
    by (simp add: ParseMessage_def SUPPORTED_KEYS_eq event_data_defs)
next
  assume "parseString OPENED_CONNECTION_GRAMMAR text = Some matched"
  then obtain l where "OPENED_CONNECTION_GRAMMAR True (expandtabs text) 0
      = Some (l, (fst matched, snd matched))"
    by (auto simp add: parseString_def)
  with names_OPENED_CONNECTION_GRAMMAR
  have d: "dom (snd matched) \<subseteq> {''address'', ''port''}"
    by (rule names_withinD)
  show "asDict matched ''username'' = None"
    using d by (auto simp add: asDict_def domIff subset_iff)
  show "asDict matched ''authentication_method'' = None"
    using d by (auto simp add: asDict_def domIff subset_iff)
  show "asDict matched ''protocol'' = None"
    using d by (auto simp add: asDict_def domIff subset_iff)
qed

theorem opened_connection_copies_tokens_witness:
  "(\<exists>event_data.
     ParseMessage [] ''opened_connection'' (0::nat) [''port'' \<mapsto> ''22'', ''protocol'' \<mapsto> ''ssh2'']
       = Inr [event_data]
     \<and> username event_data = None \<and> protocol event_data = Some ''ssh2'')
   \<and> (\<exists>matched. parseString OPENED_CONNECTION_GRAMMAR ''Connection from 2001:db8::1 port 22''
          = Some matched
        \<and> asDict matched ''username'' = None
        \<and> asDict matched ''authentication_method'' = None
        \<and> asDict matched ''protocol'' = None)"
proof -
  let ?t = "''Connection from 2001:db8::1 port 22''"
  have "parseString OPENED_CONNECTION_GRAMMAR ?t \<noteq> None"
    by code_simp
  then obtain matched where m: "parseString OPENED_CONNECTION_GRAMMAR ?t = Some matched"
    by blast
  note t = opened_connection_copies_tokens [of "[]" "0::nat"
      "[''port'' \<mapsto> ''22'', ''protocol'' \<mapsto> ''ssh2'']" ?t matched]
  from t [THEN conjunct1]
  have 1: "\<exists>event_data.
     ParseMessage [] ''opened_connection'' (0::nat) [''port'' \<mapsto> ''22'', ''protocol'' \<mapsto> ''ssh2'']
       = Inr [event_data]
     \<and> username event_data = None \<and> protocol event_data = Some ''ssh2''"
    by auto
  from t [THEN conjunct2] m
  have "asDict matched ''username'' = None
        \<and> asDict matched ''authentication_method'' = None
        \<and> asDict matched ''protocol'' = None"
    by (rule mp)
  with m 1 show ?thesis by blast
qed

text \<open>
  Claim C1 as stated fails: with entries under the three keys in the token mapping, the
  event data produced for \<^verbatim>\<open>opened_connection\<close> has all three attributes set.
\<close>

theorem opened_connection_fields_counterexample:
  "ParseMessage [] ''opened_connection'' (0::nat)
     [''username'' \<mapsto> ''root'', ''authentication_method'' \<mapsto> ''password'',
      ''protocol'' \<mapsto> ''ssh2'']
   = Inr [\<lparr>data_type = ''syslog:ssh:opened_connection'', body = None, hostname = None,
           pid = None, reporter = None, severity = None, address = None,
           authentication_method = Some ''password'', fingerprint = None,
           last_written_time = Some 0, port = None, protocol = Some ''ssh2'',
           username = Some ''root''\<rparr>]"
  by (simp add: ParseMessage_def SUPPORTED_KEYS_eq event_data_defs)

end
